theory Spec2Isabelle
  imports Main "HOL-Library.Word"
begin

unbundle bit_operations_syntax

section \<open>The live block monitor of go-eth-demo (examples/06-subscribe)\<close>

text \<open>
  The development embeds three programs of the repository:
  \<^item> \<^verbatim>\<open>advanced_block_monitor.go\<close>: the \<^verbatim>\<open>BlockMonitor\<close> with its statistics, its
    history window, its alert rules and its reports;
  \<^item> \<^verbatim>\<open>block_subscribe.go\<close>: the plain subscriber with \<^verbatim>\<open>BlockStats\<close>;
  \<^item> the polling monitor (the file that polls \<^verbatim>\<open>client.BlockNumber\<close> on a ticker).

  Go's \<^verbatim>\<open>uint64\<close> is \<open>64 word\<close>. Go's \<^verbatim>\<open>int64\<close> quantities whose value depends on one
  input (a time stamp, a duration) are \<open>int\<close> with the two's complement wrap-around
  written out by \<open>wrap64\<close>. The counters \<^verbatim>\<open>BlockCount\<close> and \<^verbatim>\<open>TotalTxs\<close> are \<open>int\<close>
  without wrap-around: they grow by one block at a time and cannot leave the range of
  \<^verbatim>\<open>int64\<close> before \<open>2 ^ 63\<close> notifications have been processed.
  \<^verbatim>\<open>*big.Int\<close> is \<open>int\<close>.
\<close>

subsection \<open>Machine integers\<close>

type_synonym uint64 = "64 word"

definition wrap64 :: "int \<Rightarrow> int" where
  "wrap64 x = (x + 2 ^ 63) mod 2 ^ 64 - 2 ^ 63"

definition maxInt64 :: int where
  "maxInt64 = 2 ^ 63 - 1"

definition minInt64 :: int where
  "minInt64 = - (2 ^ 63)"

definition maxDuration :: int where
  "maxDuration = maxInt64"

definition minDuration :: int where
  "minDuration = minInt64"

definition Second :: int where
  "Second = 1000000000"

text \<open>
  Go's \<^verbatim>\<open>/\<close> and \<^verbatim>\<open>%\<close> on machine integers truncate towards zero, and the remainder
  has the sign of the dividend. The divisors of the monitor are never zero.
\<close>

definition quo :: "int \<Rightarrow> int \<Rightarrow> int" where
  "quo a b = (if (a < 0) = (b < 0) then \<bar>a\<bar> div \<bar>b\<bar> else - (\<bar>a\<bar> div \<bar>b\<bar>))"

definition rem :: "int \<Rightarrow> int \<Rightarrow> int" where
  "rem a b = a - b * quo a b"

subsection \<open>Go's package time, as far as the monitor uses it\<close>

text \<open>
  A \<^verbatim>\<open>time.Time\<close> without monotonic reading is a number of seconds since January 1 of
  year 1 (an \<^verbatim>\<open>int64\<close>) and a number of nanoseconds; its zero value has both 0.
  \<^verbatim>\<open>time.Unix(sec, 0)\<close> stores \<^verbatim>\<open>sec + unixToInternal\<close>. \<^verbatim>\<open>t.Sub(u)\<close> computes the
  difference in nanoseconds with wrap-around, and checks it by adding it back to \<^verbatim>\<open>u\<close>:
  when that does not give \<^verbatim>\<open>t\<close> the result is the smallest or the largest duration.
  \<^verbatim>\<open>addSec\<close> stops at the ends of \<^verbatim>\<open>int64\<close> instead of wrapping around, as it does in
  the current releases of Go. A \<^verbatim>\<open>time.Duration\<close> is an \<^verbatim>\<open>int64\<close> of nanoseconds.
\<close>

record Time =
  sec :: int
  nsec :: int

definition zeroTime :: Time where
  "zeroTime = \<lparr>sec = 0, nsec = 0\<rparr>"

definition unixToInternal :: int where
  "unixToInternal = 62135596800"

definition time_Unix :: "int \<Rightarrow> Time" where
  "time_Unix s = \<lparr>sec = wrap64 (s + unixToInternal), nsec = 0\<rparr>"

definition IsZero :: "Time \<Rightarrow> bool" where
  "IsZero t \<longleftrightarrow> sec t = 0 \<and> nsec t = 0"

definition time_Equal :: "Time \<Rightarrow> Time \<Rightarrow> bool" where
  "time_Equal t u \<longleftrightarrow> sec t = sec u \<and> nsec t = nsec u"

definition time_Before :: "Time \<Rightarrow> Time \<Rightarrow> bool" where
  "time_Before t u \<longleftrightarrow> sec t < sec u \<or> (sec t = sec u \<and> nsec t < nsec u)"

definition addSec :: "Time \<Rightarrow> int \<Rightarrow> Time" where
  "addSec t d =
     (let sum = wrap64 (sec t + d)
      in if (sum > sec t) = (d > 0) then t\<lparr>sec := sum\<rparr>
         else if d > 0 then t\<lparr>sec := maxInt64\<rparr>
         else t\<lparr>sec := - maxInt64\<rparr>)"

definition time_Add :: "Time \<Rightarrow> int \<Rightarrow> Time" where
  "time_Add t d =
     (let dsec = quo d 1000000000;
          ns = nsec t + rem d 1000000000
      in if ns \<ge> 1000000000 then addSec (t\<lparr>nsec := ns - 1000000000\<rparr>) (dsec + 1)
         else if ns < 0 then addSec (t\<lparr>nsec := ns + 1000000000\<rparr>) (dsec - 1)
         else addSec (t\<lparr>nsec := ns\<rparr>) dsec)"

definition time_Sub :: "Time \<Rightarrow> Time \<Rightarrow> int" where
  "time_Sub t u =
     (let d = wrap64 (wrap64 (sec t - sec u) * Second + (nsec t - nsec u))
      in if time_Equal (time_Add u d) t then d
         else if time_Before t u then minDuration
         else maxDuration)"

text \<open>
  \<^verbatim>\<open>time.Since(t)\<close> for a \<^verbatim>\<open>t\<close> obtained from \<^verbatim>\<open>time.Now()\<close> subtracts the monotonic
  clock readings (\<^verbatim>\<open>subMono\<close>). The reading of the clock at the call is an input.
\<close>

definition subMono :: "int \<Rightarrow> int \<Rightarrow> int" where
  "subMono t u =
     (let d = wrap64 (t - u)
      in if d < 0 \<and> t > u then maxDuration
         else if d > 0 \<and> t < u then minDuration
         else d)"

subsection \<open>The history window\<close>

text \<open>
  \<^verbatim>\<open>addToHistory\<close> appends the record and, when the slice has grown beyond the capacity,
  drops its first element. The source writes the capacity as the literal 100;
  \<open>addToHistoryCap\<close> is the same body with the literal as a parameter, and
  \<open>addToHistory\<close> is the source's instance.
\<close>

definition addToHistoryCap :: "nat \<Rightarrow> 'b list \<Rightarrow> 'b \<Rightarrow> 'b list" where
  "addToHistoryCap cap blockHistory block =
     (let h = blockHistory @ [block]
      in if length h > cap then tl h else h)"

definition historyCapacity :: nat where
  "historyCapacity = 100"

definition addToHistory :: "'b list \<Rightarrow> 'b \<Rightarrow> 'b list" where
  "addToHistory blockHistory block = addToHistoryCap historyCapacity blockHistory block"

text \<open>Inserting a sequence of records, one call of \<^verbatim>\<open>addToHistory\<close> each.\<close>

fun insertAllCap :: "nat \<Rightarrow> 'b list \<Rightarrow> 'b list \<Rightarrow> 'b list" where
  "insertAllCap cap h [] = h"
| "insertAllCap cap h (b # bs) = insertAllCap cap (addToHistoryCap cap h b) bs"

subsection \<open>What the client delivers\<close>

text \<open>
  Of a transaction the monitor reads \<^verbatim>\<open>GasPrice()\<close>, which it compares with \<^verbatim>\<open>nil\<close>.
  Of a header it reads the fields below (\<open>Number\<close> is \<^verbatim>\<open>header.Number.Uint64()\<close>,
  \<open>Hash\<close> is \<^verbatim>\<open>header.Hash().Hex()\<close>, \<open>Coinbase\<close> is \<^verbatim>\<open>header.Coinbase.Hex()\<close>).
  A notification is a header taken from the subscription channel together with the
  answer of \<^verbatim>\<open>client.BlockByHash\<close> for it: \<open>None\<close> is the error return.
\<close>

record Transaction =
  GasPrice :: "int option"

record Header =
  Number :: uint64
  Hash :: string
  Time :: uint64
  GasUsed :: uint64
  GasLimit :: uint64
  Coinbase :: string

record Block =
  header :: Header
  Transactions :: "Transaction list"

record Notification =
  head :: Header
  fetched :: "Block option"

subsection \<open>The structs of the two subscribers\<close>

text \<open>\<^verbatim>\<open>BlockStats\<close> of block\_subscribe.go.\<close>

record BlockStats =
  StartTime :: int
  BlockCount :: int
  TotalTxs :: int
  TotalGasUsed :: int
  LastBlock :: "Header option"

text \<open>\<^verbatim>\<open>BlockInfo\<close>, \<^verbatim>\<open>MonitorStats\<close>, \<^verbatim>\<open>AlertRule\<close> and \<^verbatim>\<open>BlockMonitor\<close> of
  advanced\_block\_monitor.go. From here on the unqualified field names are those of
  these records; the fields of \<open>Header\<close>, \<open>Transaction\<close> and \<open>BlockStats\<close> are written
  with their record's name.\<close>

record BlockInfo =
  Number :: uint64
  Hash :: string
  Timestamp :: Time
  TxCount :: int
  GasUsed :: uint64
  GasLimit :: uint64
  GasPrice :: int
  BlockTime :: int
  Miner :: string

record MonitorStats =
  StartTime :: int
  BlockCount :: int
  TotalTxs :: int
  TotalGasUsed :: int
  MaxTxsPerBlock :: int
  MinTxsPerBlock :: int
  MaxGasUsage :: uint64
  MinGasUsage :: uint64
  AverageBlockTime :: int
  LastBlockTime :: Time

text \<open>
  The messages of the rules are built by \<^verbatim>\<open>fmt.Sprintf\<close>; an \<open>AlertText\<close> is the format
  chosen and the values given to it. The names of the rules are Chinese string literals
  in the source and are glossed in English here.
\<close>

datatype AlertText =
  HighTxText uint64 int
  | HighGasText uint64 uint64 uint64
  | LongIntervalText uint64 int
  | EmptyBlockText uint64

record AlertRule =
  Name :: string
  Condition :: "BlockInfo \<Rightarrow> MonitorStats \<Rightarrow> bool"
  Message :: "BlockInfo \<Rightarrow> MonitorStats \<Rightarrow> AlertText"

text \<open>
  The final report prints the elapsed time, the two counters, two averages when at least
  one block was counted, the average block time when it is positive, and the total gas.
  A \<open>FinalReport\<close> holds the values the lines are formatted from.
\<close>

record FinalReport =
  reportDuration :: int
  reportBlocks :: int
  reportTxs :: int
  reportAverages :: bool
  reportBlockTime :: "int option"
  reportGas :: uint64

text \<open>What the monitor writes to the standard output and to the log, in order.\<close>

datatype Output =
  MonitorStarted
  | SubscriptionError
  | MonitorStopped
  | FetchFailed
  | BlockDisplayed BlockInfo
  | Alert AlertText
  | FinalReportPrinted FinalReport

text \<open>
  \<open>ctxDone\<close> is the state of \<^verbatim>\<open>m.ctx\<close>: \<^verbatim>\<open>m.cancel()\<close> sets it, and calling the
  \<^verbatim>\<open>CancelFunc\<close> again does nothing. \<open>printed\<close> is the output so far.
\<close>

record BlockMonitor =
  ctxDone :: bool
  stats :: MonitorStats
  alertRules :: "AlertRule list"
  blockHistory :: "BlockInfo list"
  printed :: "Output list"

subsection \<open>advanced\_block\_monitor.go\<close>

text \<open>\<^verbatim>\<open>NewBlockMonitor\<close>: \<open>dialed\<close> tells whether \<^verbatim>\<open>ethclient.Dial\<close> succeeded, \<open>now\<close> is the
  clock at the call. The zero values of Go fill the fields the literal leaves out.\<close>

definition NewBlockMonitor :: "bool \<Rightarrow> int \<Rightarrow> BlockMonitor option" where
  "NewBlockMonitor dialed now =
     (if \<not> dialed then None
      else Some \<lparr>ctxDone = False,
                 stats = \<lparr>StartTime = now, BlockCount = 0, TotalTxs = 0, TotalGasUsed = 0,
                           MaxTxsPerBlock = 0, MinTxsPerBlock = 999999,
                           MaxGasUsage = 0, MinGasUsage = NOT 0,
                           AverageBlockTime = 0, LastBlockTime = zeroTime\<rparr>,
                 alertRules = [], blockHistory = [], printed = []\<rparr>)"

text \<open>
  \<^verbatim>\<open>SetupAlertRules\<close>. The second rule compares a quotient of two \<^verbatim>\<open>float64\<close> with 0.95;
  that comparison is the parameter \<open>above95\<close> (used gas, gas limit).
\<close>

definition SetupAlertRules :: "(uint64 \<Rightarrow> uint64 \<Rightarrow> bool) \<Rightarrow> BlockMonitor \<Rightarrow> BlockMonitor" where
  "SetupAlertRules above95 m = m\<lparr>alertRules :=
     [\<lparr>Name = ''high transaction count'',
       Condition = (\<lambda>block stats. TxCount block > 200),
       Message = (\<lambda>block stats. HighTxText (Number block) (TxCount block))\<rparr>,
      \<lparr>Name = ''high gas utilisation'',
       Condition = (\<lambda>block stats. above95 (GasUsed block) (GasLimit block)),
       Message = (\<lambda>block stats. HighGasText (Number block) (GasUsed block) (GasLimit block))\<rparr>,
      \<lparr>Name = ''long block interval'',
       Condition = (\<lambda>block stats. BlockTime block > 20 * Second),
       Message = (\<lambda>block stats. LongIntervalText (Number block) (BlockTime block))\<rparr>,
      \<lparr>Name = ''empty block'',
       Condition = (\<lambda>block stats. TxCount block = 0),
       Message = (\<lambda>block stats. EmptyBlockText (Number block))\<rparr>]\<rparr>"

text \<open>
  \<^verbatim>\<open>calculateAverageGasPrice\<close>. \<^verbatim>\<open>big.Int.Div\<close> is Euclidean division and panics on a
  zero divisor: \<open>None\<close> is the panic.
\<close>

definition big_Div :: "int \<Rightarrow> int \<Rightarrow> int option" where
  "big_Div x y =
     (if y = 0 then None
      else if y > 0 then Some (x div y)
      else Some (- (x div (- y))))"

fun sumGasPrices :: "Transaction list \<Rightarrow> int \<times> int \<Rightarrow> int \<times> int" where
  "sumGasPrices [] acc = acc"
| "sumGasPrices (tx # txs) (total', count) =
     (case Transaction.GasPrice tx of
        Some gasPrice \<Rightarrow> sumGasPrices txs (total' + gasPrice, count + 1)
      | None \<Rightarrow> sumGasPrices txs (total', count))"

definition calculateAverageGasPrice :: "Transaction list \<Rightarrow> int option" where
  "calculateAverageGasPrice txs =
     (if length txs = 0 then Some 0
      else case sumGasPrices txs (0, 0) of
             (total', count) \<Rightarrow> if count = 0 then Some 0 else big_Div total' count)"

text \<open>\<^verbatim>\<open>updateStats\<close> reads the history as it is before the new record is added.\<close>

fun sumBlockTimes :: "BlockInfo list \<Rightarrow> int \<times> int \<Rightarrow> int \<times> int" where
  "sumBlockTimes [] acc = acc"
| "sumBlockTimes (b # bs) (totalTime, count) =
     (if BlockTime b > 0
      then sumBlockTimes bs (wrap64 (totalTime + BlockTime b), count + 1)
      else sumBlockTimes bs (totalTime, count))"

definition updateStats :: "BlockMonitor \<Rightarrow> BlockInfo \<Rightarrow> BlockMonitor" where
  "updateStats m block =
     (let s0 = stats m;
          s1 = s0\<lparr>BlockCount := BlockCount s0 + 1,
                  TotalTxs := TotalTxs s0 + TxCount block,
                  TotalGasUsed := TotalGasUsed s0 + sint (GasUsed block)\<rparr>;
          s2 = (if TxCount block > MaxTxsPerBlock s1
                then s1\<lparr>MaxTxsPerBlock := TxCount block\<rparr> else s1);
          s3 = (if TxCount block < MinTxsPerBlock s2
                then s2\<lparr>MinTxsPerBlock := TxCount block\<rparr> else s2);
          s4 = (if GasUsed block > MaxGasUsage s3
                then s3\<lparr>MaxGasUsage := GasUsed block\<rparr> else s3);
          s5 = (if GasUsed block < MinGasUsage s4
                then s4\<lparr>MinGasUsage := GasUsed block\<rparr> else s4);
          s6 = (if BlockCount s5 > 1 \<and> length (blockHistory m) > 0
                then case sumBlockTimes (blockHistory m) (0, 0) of
                       (totalTime, count) \<Rightarrow>
                         if count > 0 then s5\<lparr>AverageBlockTime := quo totalTime count\<rparr>
                         else s5
                else s5)
      in m\<lparr>stats := s6\<rparr>)"

definition displayBlockInfo :: "BlockMonitor \<Rightarrow> BlockInfo \<Rightarrow> BlockMonitor" where
  "displayBlockInfo m block = m\<lparr>printed := printed m @ [BlockDisplayed block]\<rparr>"

text \<open>\<^verbatim>\<open>checkAlerts\<close>: the loop over \<^verbatim>\<open>m.alertRules\<close>, printing as it goes.\<close>

fun alertLoop :: "AlertRule list \<Rightarrow> BlockInfo \<Rightarrow> MonitorStats \<Rightarrow> Output list \<Rightarrow> Output list" where
  "alertLoop [] block st out = out"
| "alertLoop (rule # rules) block st out =
     (if Condition rule block st
      then alertLoop rules block st (out @ [Alert (Message rule block st)])
      else alertLoop rules block st out)"

definition checkAlerts :: "BlockMonitor \<Rightarrow> BlockInfo \<Rightarrow> BlockMonitor" where
  "checkAlerts m block = m\<lparr>printed := alertLoop (alertRules m) block (stats m) (printed m)\<rparr>"

text \<open>\<^verbatim>\<open>processBlock\<close>. \<open>None\<close> is a panic of the goroutine.\<close>

definition processBlock :: "BlockMonitor \<Rightarrow> Notification \<Rightarrow> BlockMonitor option" where
  "processBlock m n =
     (case fetched n of
        None \<Rightarrow> Some (m\<lparr>printed := printed m @ [FetchFailed]\<rparr>)
      | Some block \<Rightarrow>
          let hdr = head n;
              blockTime = (if \<not> IsZero (LastBlockTime (stats m))
                           then time_Sub (time_Unix (sint (Header.Time hdr)))
                                         (LastBlockTime (stats m))
                           else 0);
              m1 = m\<lparr>stats := (stats m)\<lparr>LastBlockTime := time_Unix (sint (Header.Time hdr))\<rparr>\<rparr>
          in case calculateAverageGasPrice (Transactions block) of
               None \<Rightarrow> None
             | Some avgGasPrice \<Rightarrow>
                 let blockInfo = \<lparr>Number = Header.Number hdr,
                                  Hash = Header.Hash hdr,
                                  Timestamp = time_Unix (sint (Header.Time hdr)),
                                  TxCount = int (length (Transactions block)),
                                  GasUsed = Header.GasUsed hdr,
                                  GasLimit = Header.GasLimit hdr,
                                  GasPrice = avgGasPrice,
                                  BlockTime = blockTime,
                                  Miner = Coinbase hdr\<rparr>;
                     m2 = updateStats m1 blockInfo;
                     m3 = m2\<lparr>blockHistory := addToHistory (blockHistory m2) blockInfo\<rparr>;
                     m4 = displayBlockInfo m3 blockInfo
                 in Some (checkAlerts m4 blockInfo))"

text \<open>The notifications of a session, one call of \<^verbatim>\<open>processBlock\<close> each.\<close>

fun processBlocks :: "BlockMonitor \<Rightarrow> Notification list \<Rightarrow> BlockMonitor option" where
  "processBlocks m [] = Some m"
| "processBlocks m (n # ns) =
     (case processBlock m n of None \<Rightarrow> None | Some m' \<Rightarrow> processBlocks m' ns)"

text \<open>
  \<^verbatim>\<open>Start\<close>. What the \<^verbatim>\<open>select\<close> receives, in the order it receives it, is a list of
  events; when the list is used up the goroutine is blocked in the \<^verbatim>\<open>select\<close>.
  \<^verbatim>\<open>log.Fatalf\<close> ends the process.
\<close>

datatype Event = SubErr | NewHead Notification | CtxDone

datatype Subscription = SubscribeFailed | Subscribed "Event list"

datatype 'a Outcome = Fatal | Panicked | Blocked 'a | Returned 'a

fun startLoop :: "BlockMonitor \<Rightarrow> Event list \<Rightarrow> BlockMonitor Outcome" where
  "startLoop m [] = Blocked m"
| "startLoop m (SubErr # evs) = Returned (m\<lparr>printed := printed m @ [SubscriptionError]\<rparr>)"
| "startLoop m (NewHead n # evs) =
     (case processBlock m n of None \<Rightarrow> Panicked | Some m' \<Rightarrow> startLoop m' evs)"
| "startLoop m (CtxDone # evs) = Returned (m\<lparr>printed := printed m @ [MonitorStopped]\<rparr>)"

definition Start :: "BlockMonitor \<Rightarrow> Subscription \<Rightarrow> BlockMonitor Outcome" where
  "Start m sub =
     (case sub of
        SubscribeFailed \<Rightarrow> Fatal
      | Subscribed evs \<Rightarrow> startLoop (m\<lparr>printed := printed m @ [MonitorStarted]\<rparr>) evs)"

text \<open>
  \<^verbatim>\<open>generateFinalReport\<close> and \<^verbatim>\<open>Stop\<close>; \<open>now\<close> is the clock when \<^verbatim>\<open>time.Since\<close> reads it.
  \<^verbatim>\<open>TotalGasUsed.Uint64()\<close> gives the low 64 bits of the absolute value.
\<close>

definition generateFinalReport :: "int \<Rightarrow> BlockMonitor \<Rightarrow> BlockMonitor" where
  "generateFinalReport now m =
     (let s = stats m;
          report = \<lparr>reportDuration = subMono now (StartTime s),
                    reportBlocks = BlockCount s,
                    reportTxs = TotalTxs s,
                    reportAverages = (BlockCount s > 0),
                    reportBlockTime = (if AverageBlockTime s > 0
                                       then Some (AverageBlockTime s) else None),
                    reportGas = word_of_int \<bar>TotalGasUsed s\<bar>\<rparr>
      in m\<lparr>printed := printed m @ [FinalReportPrinted report]\<rparr>)"

definition Stop :: "int \<Rightarrow> BlockMonitor \<Rightarrow> BlockMonitor" where
  "Stop now m = generateFinalReport now (m\<lparr>ctxDone := True\<rparr>)"

text \<open>The records the monitor has displayed, read off its output.\<close>

fun displayedRecords :: "Output list \<Rightarrow> BlockInfo list" where
  "displayedRecords [] = []"
| "displayedRecords (BlockDisplayed b # out) = b # displayedRecords out"
| "displayedRecords (x # out) = displayedRecords out"

text \<open>
  For the statements about sessions: the notifications whose block was fetched, with
  header and block; the intervals \<^verbatim>\<open>processBlock\<close> computes for a sequence of header
  times, from the \<^verbatim>\<open>LastBlockTime\<close> it starts with; and the \<^verbatim>\<open>LastBlockTime\<close> it
  ends with.
\<close>

fun folded :: "Notification list \<Rightarrow> (Header \<times> Block) list" where
  "folded [] = []"
| "folded (n # ns) =
     (case fetched n of None \<Rightarrow> folded ns | Some block \<Rightarrow> (head n, block) # folded ns)"

fun blockTimes :: "Time \<Rightarrow> uint64 list \<Rightarrow> int list" where
  "blockTimes lastBlockTime [] = []"
| "blockTimes lastBlockTime (t # ts) =
     (if \<not> IsZero lastBlockTime then time_Sub (time_Unix (sint t)) lastBlockTime else 0)
       # blockTimes (time_Unix (sint t)) ts"

fun lastTime :: "Time \<Rightarrow> uint64 list \<Rightarrow> Time" where
  "lastTime lastBlockTime [] = lastBlockTime"
| "lastTime lastBlockTime (t # ts) = lastTime (time_Unix (sint t)) ts"

text \<open>Fixtures for the concrete runs: a header, a notification with its block
  fetched, one whose fetch fails, and the monitor \<^verbatim>\<open>NewBlockMonitor\<close> returns at clock 0.\<close>

definition headerAt :: "uint64 \<Rightarrow> uint64 \<Rightarrow> Header" where
  "headerAt number t =
     \<lparr>Header.Number = number, Header.Hash = [], Time = t, Header.GasUsed = 21000,
      Header.GasLimit = 30000000, Coinbase = []\<rparr>"

definition fetchedAt :: "uint64 \<Rightarrow> uint64 \<Rightarrow> Transaction list \<Rightarrow> Notification" where
  "fetchedAt number t txs =
     \<lparr>head = headerAt number t,
      fetched = Some \<lparr>header = headerAt number t, Transactions = txs\<rparr>\<rparr>"

definition failedAt :: "uint64 \<Rightarrow> uint64 \<Rightarrow> Notification" where
  "failedAt number t = \<lparr>head = headerAt number t, fetched = None\<rparr>"

definition freshMonitor :: BlockMonitor where
  "freshMonitor =
     \<lparr>ctxDone = False,
      stats = \<lparr>StartTime = 0, BlockCount = 0, TotalTxs = 0, TotalGasUsed = 0,
                MaxTxsPerBlock = 0, MinTxsPerBlock = 999999,
                MaxGasUsage = 0, MinGasUsage = NOT 0,
                AverageBlockTime = 0, LastBlockTime = zeroTime\<rparr>,
      alertRules = [], blockHistory = [], printed = []\<rparr>"

subsection \<open>block\_subscribe.go\<close>

text \<open>
  \<^verbatim>\<open>analyzeBlock\<close> and \<^verbatim>\<open>processNewHeader\<close>, as far as they change \<^verbatim>\<open>BlockStats\<close> (what
  they print is left out). \<^verbatim>\<open>block.GasUsed()\<close> is added with \<^verbatim>\<open>SetUint64\<close>.
\<close>

definition analyzeBlock :: "Block \<Rightarrow> BlockStats \<Rightarrow> BlockStats" where
  "analyzeBlock block st =
     (let txCount = int (length (Transactions block))
      in st\<lparr>BlockStats.TotalTxs := BlockStats.TotalTxs st + txCount,
            BlockStats.TotalGasUsed :=
              BlockStats.TotalGasUsed st + uint (Header.GasUsed (header block))\<rparr>)"

definition processNewHeader :: "Notification \<Rightarrow> BlockStats \<Rightarrow> BlockStats" where
  "processNewHeader n st =
     (let st1 = st\<lparr>BlockStats.BlockCount := BlockStats.BlockCount st + 1,
                   LastBlock := Some (head n)\<rparr>
      in case fetched n of
           None \<Rightarrow> st1
         | Some block \<Rightarrow> analyzeBlock block st1)"

text \<open>The \<^verbatim>\<open>for\<close>/\<^verbatim>\<open>select\<close> loop of \<^verbatim>\<open>subscribeNewHeads\<close> on one subscription.\<close>

datatype LoopEnd = EndError | EndDone | EndBlocked

fun headsLoop :: "BlockStats \<Rightarrow> Event list \<Rightarrow> LoopEnd \<times> BlockStats" where
  "headsLoop st [] = (EndBlocked, st)"
| "headsLoop st (SubErr # evs) = (EndError, st)"
| "headsLoop st (NewHead n # evs) = headsLoop (processNewHeader n st) evs"
| "headsLoop st (CtxDone # evs) = (EndDone, st)"

text \<open>
  \<^verbatim>\<open>subscribeNewHeads\<close>. On a subscription error the goroutine sleeps five seconds, starts
  \<^verbatim>\<open>subscribeNewHeads\<close> again in a new goroutine and returns; the chain of goroutines is
  one recursion here. \<open>client k\<close> is what the call number \<open>k\<close> of
  \<^verbatim>\<open>client.SubscribeNewHead\<close> gives. The result is how the chain ends and the number of
  subscriptions made after the first; \<open>None\<close> is a chain that never ends.
\<close>

partial_function (option) subscribeNewHeads ::
  "(nat \<Rightarrow> Subscription) \<Rightarrow> nat \<Rightarrow> BlockStats \<Rightarrow> (BlockStats Outcome \<times> nat) option" where
  "subscribeNewHeads client k st =
     (case client k of
        SubscribeFailed \<Rightarrow> Some (Fatal, k)
      | Subscribed evs \<Rightarrow>
          (case headsLoop st evs of
             (EndError, st') \<Rightarrow> subscribeNewHeads client (k + 1) st'
           | (EndDone, st') \<Rightarrow> Some (Returned st', k)
           | (EndBlocked, st') \<Rightarrow> Some (Blocked st', k)))"

subsection \<open>The polling monitor\<close>

text \<open>
  The state of \<^verbatim>\<open>main\<close>: \<^verbatim>\<open>lastBlockNumber\<close>, \<^verbatim>\<open>blockCount\<close>, and, as a trace, the
  arguments of the calls of \<^verbatim>\<open>processBlock\<close> and the output. \<open>client\<close> is
  \<^verbatim>\<open>client.BlockByNumber\<close>, called with \<^verbatim>\<open>big.NewInt(int64(blockNumber))\<close>.
\<close>

datatype PollOutput =
  NumberFailed
  | NewBlocksFound uint64
  | Waiting uint64
  | BlockFailed uint64
  | BlockShown Block

record PollState =
  lastBlockNumber :: uint64
  blockCount :: int
  processed :: "uint64 list"
  pollPrinted :: "PollOutput list"

definition poll_processBlock :: "(int \<Rightarrow> Block option) \<Rightarrow> uint64 \<Rightarrow> PollState \<Rightarrow> PollState" where
  "poll_processBlock client blockNumber st =
     (let st1 = st\<lparr>processed := processed st @ [blockNumber]\<rparr>
      in case client (sint blockNumber) of
           None \<Rightarrow> st1\<lparr>pollPrinted := pollPrinted st1 @ [BlockFailed blockNumber]\<rparr>
         | Some block \<Rightarrow> st1\<lparr>pollPrinted := pollPrinted st1 @ [BlockShown block]\<rparr>)"

text \<open>
  The loop \<^verbatim>\<open>for blockNum := lastBlockNumber + 1; blockNum <= currentBlock; blockNum++\<close>
  on \<^verbatim>\<open>uint64\<close>: \<open>None\<close> is a loop that never ends. \<^verbatim>\<open>blockCount\<close> is a Go \<^verbatim>\<open>int\<close>,
  taken as 64 bits wide, and \<^verbatim>\<open>blockCount++\<close> wraps around.
\<close>

partial_function (option) pollBlocks ::
  "(int \<Rightarrow> Block option) \<Rightarrow> uint64 \<Rightarrow> uint64 \<Rightarrow> PollState \<Rightarrow> PollState option" where
  "pollBlocks client blockNum currentBlock st =
     (if blockNum \<le> currentBlock
      then pollBlocks client (blockNum + 1) currentBlock
             ((poll_processBlock client blockNum st)
                \<lparr>blockCount := wrap64 (blockCount st + 1)\<rparr>)
      else Some st)"

text \<open>One tick of the ticker: the answer of \<^verbatim>\<open>client.BlockNumber\<close> is \<open>None\<close> for an error.\<close>

definition pollTick :: "(int \<Rightarrow> Block option) \<Rightarrow> uint64 option \<Rightarrow> PollState \<Rightarrow> PollState option" where
  "pollTick client answer st =
     (case answer of
        None \<Rightarrow> Some (st\<lparr>pollPrinted := pollPrinted st @ [NumberFailed]\<rparr>)
      | Some currentBlock \<Rightarrow>
          if currentBlock > lastBlockNumber st
          then case pollBlocks client (lastBlockNumber st + 1) currentBlock
                      (st\<lparr>pollPrinted := pollPrinted st
                             @ [NewBlocksFound (currentBlock - lastBlockNumber st)]\<rparr>) of
                 None \<Rightarrow> None
               | Some st' \<Rightarrow> Some (st'\<lparr>lastBlockNumber := currentBlock\<rparr>)
          else Some (st\<lparr>pollPrinted := pollPrinted st @ [Waiting currentBlock]\<rparr>))"

section \<open>Theorems\<close>

subsection \<open>The history window is a bounded FIFO\<close>

lemma addToHistoryCap_eq:
  "length h \<le> cap \<Longrightarrow>
   addToHistoryCap cap h b = drop (length (h @ [b]) - cap) (h @ [b])"
  by (cases h) (auto simp: addToHistoryCap_def Let_def Suc_diff_le)

lemma addToHistoryCap_length:
  "length h \<le> cap \<Longrightarrow> length (addToHistoryCap cap h b) \<le> cap"
  by (auto simp: addToHistoryCap_def Let_def)

lemma insertAllCap_eq:
  "length h \<le> cap \<Longrightarrow>
   insertAllCap cap h bs = drop (length (h @ bs) - cap) (h @ bs)"
proof (induction bs arbitrary: h)
  case Nil
  then show ?case by simp
next
  case (Cons b bs)
  define k where "k = length (h @ [b]) - cap"
  let ?h' = "addToHistoryCap cap h b"
  have k: "k \<le> length (h @ [b])" "length (h @ [b]) - k \<le> cap"
    using Cons.prems by (auto simp: k_def)
  have h': "?h' = drop k (h @ [b])"
    unfolding k_def using Cons.prems by (rule addToHistoryCap_eq)
  have len: "length ?h' \<le> cap"
    using Cons.prems by (rule addToHistoryCap_length)
  have "drop k ((h @ [b]) @ bs) = drop k (h @ [b]) @ bs"
    using k(1) by (simp only: drop_append diff_is_0_eq' drop_0 mp)
  then have app: "?h' @ bs = drop k (h @ b # bs)"
    by (simp add: h')
  have "insertAllCap cap h (b # bs) = insertAllCap cap ?h' bs" by simp
  also have "\<dots> = drop (length (?h' @ bs) - cap) (?h' @ bs)"
    using len by (rule Cons.IH)
  also have "\<dots> = drop (length (drop k (h @ b # bs)) - cap + k) (h @ b # bs)"
    by (simp only: app drop_drop)
  also have "length (drop k (h @ b # bs)) - cap + k = length (h @ b # bs) - cap"
    using Cons.prems by (auto simp: k_def)
  finally show ?case .
qed

text \<open>
  Claim C2. From a window within its capacity, after any sequence of insertions the
  window is no longer than the capacity, it is what remains of the arrivals after the
  oldest ones beyond the capacity have been dropped, and once at least \<open>cap\<close> records
  have been inserted it is exactly the last \<open>cap\<close> of them, in arrival order. The
  source's window is the instance \<open>cap = 100\<close>.
\<close>

theorem history_window_bounded_fifo:
  assumes "length h \<le> cap"
  shows "length (insertAllCap cap h bs) \<le> cap
       \<and> (cap \<le> length bs \<longrightarrow> insertAllCap cap h bs = drop (length bs - cap) bs)
       \<and> (cap = historyCapacity \<longrightarrow> foldl addToHistory h bs = insertAllCap cap h bs)"
proof (intro conjI impI)
  show "length (insertAllCap cap h bs) \<le> cap"
    using assms by (simp add: insertAllCap_eq)
  show "insertAllCap cap h bs = drop (length bs - cap) bs" if "cap \<le> length bs"
    using assms that by (simp add: insertAllCap_eq)
  have "foldl addToHistory g bs = insertAllCap historyCapacity g bs" for g :: "'a list"
    by (induction bs arbitrary: g) (simp_all add: addToHistory_def)
  then show "foldl addToHistory h bs = insertAllCap cap h bs" if "cap = historyCapacity"
    using that by simp
qed

theorem history_window_bounded_fifo_witness:
  "length ([] :: nat list) \<le> 3
   \<and> length (insertAllCap 3 [] [1, 2, 3, 4, 5 :: nat]) \<le> 3
   \<and> insertAllCap 3 [] [1, 2, 3, 4, 5 :: nat] = [3, 4, 5]"
  using history_window_bounded_fifo [of "[] :: nat list" 3 "[1, 2, 3, 4, 5]"]
  by simp

subsection \<open>Shared facts about the advanced monitor\<close>

lemma sumGasPrices_acc:
  "sumGasPrices txs (t, c) =
     (t + sum_list (map (\<lambda>tx. case Transaction.GasPrice tx of Some p \<Rightarrow> p | None \<Rightarrow> 0) txs),
      c + int (length (filter (\<lambda>tx. Transaction.GasPrice tx \<noteq> None) txs)))"
  by (induction txs arbitrary: t c) (auto split: option.splits)

lemma calculateAverageGasPrice_total: "\<exists>v. calculateAverageGasPrice txs = Some v"
  by (auto simp: calculateAverageGasPrice_def sumGasPrices_acc big_Div_def)

lemma alertLoop_eq:
  "alertLoop rules block st out =
     out @ map (\<lambda>r. Alert (Message r block st)) (filter (\<lambda>r. Condition r block st) rules)"
  by (induction rules arbitrary: out) auto

lemma displayedRecords_append:
  "displayedRecords (xs @ ys) = displayedRecords xs @ displayedRecords ys"
  by (induction xs rule: displayedRecords.induct) auto

lemma displayedRecords_alerts: "displayedRecords (map (\<lambda>r. Alert (f r)) rs) = []"
  by (induction rs) auto

lemma updateStats_frame:
  "blockHistory (updateStats m b) = blockHistory m"
  "printed (updateStats m b) = printed m"
  "alertRules (updateStats m b) = alertRules m"
  "ctxDone (updateStats m b) = ctxDone m"
  by (simp_all add: updateStats_def Let_def)

lemma updateStats_counts:
  "BlockCount (stats (updateStats m b)) = BlockCount (stats m) + 1"
  "TotalTxs (stats (updateStats m b)) = TotalTxs (stats m) + TxCount b"
  "TotalGasUsed (stats (updateStats m b)) = TotalGasUsed (stats m) + sint (GasUsed b)"
  "LastBlockTime (stats (updateStats m b)) = LastBlockTime (stats m)"
  "StartTime (stats (updateStats m b)) = StartTime (stats m)"
  by (simp_all add: updateStats_def Let_def split: prod.splits)

lemma updateStats_extremes:
  "MaxTxsPerBlock (stats (updateStats m b)) = max (MaxTxsPerBlock (stats m)) (TxCount b)"
  "MinTxsPerBlock (stats (updateStats m b)) = min (MinTxsPerBlock (stats m)) (TxCount b)"
  "MaxGasUsage (stats (updateStats m b)) = max (MaxGasUsage (stats m)) (GasUsed b)"
  "MinGasUsage (stats (updateStats m b)) = min (MinGasUsage (stats m)) (GasUsed b)"
  by (auto simp: updateStats_def Let_def max_def min_def split: prod.splits)

lemma processBlock_failed:
  "fetched n = None \<Longrightarrow> processBlock m n = Some (m\<lparr>printed := printed m @ [FetchFailed]\<rparr>)"
  by (simp add: processBlock_def)

lemma processBlock_fetched:
  assumes "fetched n = Some blk"
  shows "\<exists>info m'. processBlock m n = Some m'
     \<and> Number info = Header.Number (head n)
     \<and> TxCount info = int (length (Transactions blk))
     \<and> GasUsed info = Header.GasUsed (head n)
     \<and> BlockTime info = (if IsZero (LastBlockTime (stats m)) then 0
                          else time_Sub (time_Unix (sint (Header.Time (head n))))
                                        (LastBlockTime (stats m)))
     \<and> stats m' = stats (updateStats
           (m\<lparr>stats := (stats m)\<lparr>LastBlockTime := time_Unix (sint (Header.Time (head n)))\<rparr>\<rparr>) info)
     \<and> blockHistory m' = addToHistory (blockHistory m) info
     \<and> printed m' = printed m @ BlockDisplayed info #
           map (\<lambda>r. Alert (Message r info (stats m')))
               (filter (\<lambda>r. Condition r info (stats m')) (alertRules m))
     \<and> alertRules m' = alertRules m \<and> ctxDone m' = ctxDone m"
proof -
  obtain avg where avg: "calculateAverageGasPrice (Transactions blk) = Some avg"
    using calculateAverageGasPrice_total by blast
  show ?thesis
    using assms avg
    by (simp add: processBlock_def Let_def checkAlerts_def displayBlockInfo_def
        updateStats_frame alertLoop_eq)
qed

lemma insertAllCap_foldl:
  "foldl (addToHistoryCap cap) h bs = insertAllCap cap h bs"
  by (induction bs arbitrary: h) simp_all

lemma session:
  "\<exists>m' infos. processBlocks m ns = Some m'
     \<and> displayedRecords (printed m') = displayedRecords (printed m) @ infos
     \<and> blockHistory m' = insertAllCap historyCapacity (blockHistory m) infos
     \<and> map Number infos = map (\<lambda>(h, b). Header.Number h) (folded ns)
     \<and> map TxCount infos = map (\<lambda>(h, b). int (length (Transactions b))) (folded ns)
     \<and> map GasUsed infos = map (\<lambda>(h, b). Header.GasUsed h) (folded ns)
     \<and> map BlockTime infos
         = blockTimes (LastBlockTime (stats m)) (map (\<lambda>(h, b). Header.Time h) (folded ns))
     \<and> LastBlockTime (stats m')
         = lastTime (LastBlockTime (stats m)) (map (\<lambda>(h, b). Header.Time h) (folded ns))
     \<and> BlockCount (stats m') = BlockCount (stats m) + int (length infos)
     \<and> MaxTxsPerBlock (stats m') = foldl max (MaxTxsPerBlock (stats m)) (map TxCount infos)
     \<and> MinTxsPerBlock (stats m') = foldl min (MinTxsPerBlock (stats m)) (map TxCount infos)
     \<and> MaxGasUsage (stats m') = foldl max (MaxGasUsage (stats m)) (map GasUsed infos)
     \<and> MinGasUsage (stats m') = foldl min (MinGasUsage (stats m)) (map GasUsed infos)
     \<and> alertRules m' = alertRules m \<and> ctxDone m' = ctxDone m"
proof (induction ns arbitrary: m)
  case Nil
  show ?case by simp
next
  case (Cons n ns)
  show ?case
  proof (cases "fetched n")
    case None
    let ?m1 = "m\<lparr>printed := printed m @ [FetchFailed]\<rparr>"
    from Cons.IH [of ?m1] obtain m' infos where
      "processBlocks ?m1 ns = Some m'" and rest: 
      "displayedRecords (printed m') = displayedRecords (printed ?m1) @ infos
     \<and> blockHistory m' = insertAllCap historyCapacity (blockHistory ?m1) infos
     \<and> map Number infos = map (\<lambda>(h, b). Header.Number h) (folded ns)
     \<and> map TxCount infos = map (\<lambda>(h, b). int (length (Transactions b))) (folded ns)
     \<and> map GasUsed infos = map (\<lambda>(h, b). Header.GasUsed h) (folded ns)
     \<and> map BlockTime infos
         = blockTimes (LastBlockTime (stats ?m1)) (map (\<lambda>(h, b). Header.Time h) (folded ns))
     \<and> LastBlockTime (stats m')
         = lastTime (LastBlockTime (stats ?m1)) (map (\<lambda>(h, b). Header.Time h) (folded ns))
     \<and> BlockCount (stats m') = BlockCount (stats ?m1) + int (length infos)
     \<and> MaxTxsPerBlock (stats m') = foldl max (MaxTxsPerBlock (stats ?m1)) (map TxCount infos)
     \<and> MinTxsPerBlock (stats m') = foldl min (MinTxsPerBlock (stats ?m1)) (map TxCount infos)
     \<and> MaxGasUsage (stats m') = foldl max (MaxGasUsage (stats ?m1)) (map GasUsed infos)
     \<and> MinGasUsage (stats m') = foldl min (MinGasUsage (stats ?m1)) (map GasUsed infos)
     \<and> alertRules m' = alertRules ?m1 \<and> ctxDone m' = ctxDone ?m1"
      by blast
    then show ?thesis
      using None
      by (intro exI [of _ m'] exI [of _ infos])
         (simp add: processBlock_failed displayedRecords_append)
  next
    case (Some blk)
    from processBlock_fetched [OF Some, of m] obtain info m1 where
      step: "processBlock m n = Some m1"
        "Number info = Header.Number (head n)"
        "TxCount info = int (length (Transactions blk))"
        "GasUsed info = Header.GasUsed (head n)"
        "BlockTime info = (if IsZero (LastBlockTime (stats m)) then 0
                          else time_Sub (time_Unix (sint (Header.Time (head n))))
                                        (LastBlockTime (stats m)))"
        "stats m1 = stats (updateStats
           (m\<lparr>stats := (stats m)\<lparr>LastBlockTime := time_Unix (sint (Header.Time (head n)))\<rparr>\<rparr>) info)"
        "blockHistory m1 = addToHistory (blockHistory m) info"
        "printed m1 = printed m @ BlockDisplayed info #
           map (\<lambda>r. Alert (Message r info (stats m1)))
               (filter (\<lambda>r. Condition r info (stats m1)) (alertRules m))"
        "alertRules m1 = alertRules m" "ctxDone m1 = ctxDone m"
      by blast
    have disp: "displayedRecords (printed m1) = displayedRecords (printed m) @ [info]"
      by (simp add: step(8) displayedRecords_append displayedRecords_alerts)
    from Cons.IH [of m1] obtain m' infos where
      run: "processBlocks m1 ns = Some m'" and rest: 
      "displayedRecords (printed m') = displayedRecords (printed m1) @ infos"
      "blockHistory m' = insertAllCap historyCapacity (blockHistory m1) infos"
      "map Number infos = map (\<lambda>(h, b). Header.Number h) (folded ns)"
      "map TxCount infos = map (\<lambda>(h, b). int (length (Transactions b))) (folded ns)"
      "map GasUsed infos = map (\<lambda>(h, b). Header.GasUsed h) (folded ns)"
      "map BlockTime infos
         = blockTimes (LastBlockTime (stats m1)) (map (\<lambda>(h, b). Header.Time h) (folded ns))"
      "LastBlockTime (stats m')
         = lastTime (LastBlockTime (stats m1)) (map (\<lambda>(h, b). Header.Time h) (folded ns))"
      "BlockCount (stats m') = BlockCount (stats m1) + int (length infos)"
      "MaxTxsPerBlock (stats m') = foldl max (MaxTxsPerBlock (stats m1)) (map TxCount infos)"
      "MinTxsPerBlock (stats m') = foldl min (MinTxsPerBlock (stats m1)) (map TxCount infos)"
      "MaxGasUsage (stats m') = foldl max (MaxGasUsage (stats m1)) (map GasUsed infos)"
      "MinGasUsage (stats m') = foldl min (MinGasUsage (stats m1)) (map GasUsed infos)"
      "alertRules m' = alertRules m1" "ctxDone m' = ctxDone m1"
      by blast
    show ?thesis
      apply (intro exI [of _ m'] exI [of _ "info # infos"])
      using Some step(1-5,7,9,10) run rest disp
      by (simp add: step(6) updateStats_counts updateStats_extremes addToHistory_def)
  qed
qed

subsection \<open>The average gas price of a block\<close>

text \<open>
  Claim C9. \<^verbatim>\<open>calculateAverageGasPrice\<close> returns a value for every transaction list (the
  division never sees a zero divisor), and the value is zero when the list is empty and
  when no transaction of it carries a gas price.
\<close>

theorem average_gas_price_zero:
  "(\<exists>v. calculateAverageGasPrice txs = Some v)
   \<and> (txs = [] \<or> (\<forall>tx \<in> set txs. Transaction.GasPrice tx = None)
        \<longrightarrow> calculateAverageGasPrice txs = Some 0)"
proof (intro conjI impI)
  show "\<exists>v. calculateAverageGasPrice txs = Some v"
    by (rule calculateAverageGasPrice_total)
  assume "txs = [] \<or> (\<forall>tx \<in> set txs. Transaction.GasPrice tx = None)"
  then show "calculateAverageGasPrice txs = Some 0"
  proof
    assume "txs = []"
    then show ?thesis by (simp add: calculateAverageGasPrice_def)
  next
    assume "\<forall>tx \<in> set txs. Transaction.GasPrice tx = None"
    then have "filter (\<lambda>tx. Transaction.GasPrice tx \<noteq> None) txs = []"
      by (simp add: filter_empty_conv)
    then show ?thesis by (simp add: calculateAverageGasPrice_def sumGasPrices_acc)
  qed
qed

theorem average_gas_price_zero_witness:
  "calculateAverageGasPrice [] = Some 0
   \<and> calculateAverageGasPrice
        [\<lparr>Transaction.GasPrice = None\<rparr>, \<lparr>Transaction.GasPrice = None\<rparr>] = Some 0"
  using average_gas_price_zero [of "[]"]
    average_gas_price_zero [of "[\<lparr>Transaction.GasPrice = None\<rparr>, \<lparr>Transaction.GasPrice = None\<rparr>]"]
  by simp

subsection \<open>Alert evaluation\<close>

text \<open>
  Claim C8. \<^verbatim>\<open>checkAlerts\<close> prints, after what was printed before, the messages of
  exactly the rules whose condition holds of the record and the statistics, in the order
  of the rule list, every rule being evaluated; it changes nothing else of the monitor.
  The printed alerts are thus a function of the rule list, the record and the
  statistics: equal inputs fire the same rules. With the four rules of
  \<^verbatim>\<open>SetupAlertRules\<close> each condition decides on its own whether its message appears.
\<close>

theorem check_alerts_runs_every_rule:
  "printed (checkAlerts m block) =
     printed m @ map (\<lambda>rule. Alert (Message rule block (stats m)))
                     (filter (\<lambda>rule. Condition rule block (stats m)) (alertRules m))
   \<and> stats (checkAlerts m block) = stats m
   \<and> blockHistory (checkAlerts m block) = blockHistory m
   \<and> alertRules (checkAlerts m block) = alertRules m
   \<and> ctxDone (checkAlerts m block) = ctxDone m
   \<and> printed (checkAlerts (SetupAlertRules above95 m) block) =
       printed m
       @ (if TxCount block > 200
          then [Alert (HighTxText (Number block) (TxCount block))] else [])
       @ (if above95 (GasUsed block) (GasLimit block)
          then [Alert (HighGasText (Number block) (GasUsed block) (GasLimit block))] else [])
       @ (if BlockTime block > 20 * Second
          then [Alert (LongIntervalText (Number block) (BlockTime block))] else [])
       @ (if TxCount block = 0
          then [Alert (EmptyBlockText (Number block))] else [])"
proof (intro conjI)
  show "printed (checkAlerts m block) =
     printed m @ map (\<lambda>rule. Alert (Message rule block (stats m)))
                     (filter (\<lambda>rule. Condition rule block (stats m)) (alertRules m))"
    by (simp add: checkAlerts_def alertLoop_eq)
  show "printed (checkAlerts (SetupAlertRules above95 m) block) =
       printed m
       @ (if TxCount block > 200
          then [Alert (HighTxText (Number block) (TxCount block))] else [])
       @ (if above95 (GasUsed block) (GasLimit block)
          then [Alert (HighGasText (Number block) (GasUsed block) (GasLimit block))] else [])
       @ (if BlockTime block > 20 * Second
          then [Alert (LongIntervalText (Number block) (BlockTime block))] else [])
       @ (if TxCount block = 0
          then [Alert (EmptyBlockText (Number block))] else [])"
    by (simp add: checkAlerts_def SetupAlertRules_def)
qed (simp_all add: checkAlerts_def)

subsection \<open>The block counters\<close>

lemma headsLoop_heads:
  "headsLoop st (map NewHead ns) = (EndBlocked, foldl (\<lambda>s n. processNewHeader n s) st ns)"
  by (induction ns arbitrary: st) simp_all

lemma processNewHeader_count:
  "BlockStats.BlockCount (processNewHeader n st) = BlockStats.BlockCount st + 1"
  by (simp add: processNewHeader_def analyzeBlock_def Let_def split: option.splits)

lemma heads_count:
  "BlockStats.BlockCount (foldl (\<lambda>s n. processNewHeader n s) st ns)
     = BlockStats.BlockCount st + int (length ns)"
  by (induction ns arbitrary: st) (simp_all add: processNewHeader_count)



text \<open>
  The plain subscriber of block\_subscribe.go keeps another counter, in \<^verbatim>\<open>BlockStats\<close>,
  which it labels as the blocks received: \<^verbatim>\<open>processNewHeader\<close> increments it when the
  header arrives, so it counts the head notifications.
\<close>

lemma plain_subscriber_counts_notifications:
  "BlockStats.BlockCount (snd (headsLoop st (map NewHead ns)))
     = BlockStats.BlockCount st + int (length ns)"
  by (simp add: headsLoop_heads heads_count)

subsection \<open>Block numbers in the history window\<close>

text \<open>
  Claim C4, as the code has it. Nothing is deduplicated: every fetched notification is
  folded and appended, so the window holds the block numbers of the fetched
  notifications in arrival order, cut to the last 100. Its block numbers are pairwise
  distinct whenever those of the window at the start and of the fetched notifications
  are.
\<close>

theorem history_holds_every_fetched_block:
  assumes "length (blockHistory m) \<le> historyCapacity"
  shows "\<exists>m'. processBlocks m ns = Some m'
     \<and> map Number (blockHistory m')
         = drop (length (blockHistory m) + length (folded ns) - historyCapacity)
             (map Number (blockHistory m) @ map (\<lambda>(h, b). Header.Number h) (folded ns))
     \<and> (distinct (map Number (blockHistory m) @ map (\<lambda>(h, b). Header.Number h) (folded ns))
          \<longrightarrow> distinct (map Number (blockHistory m')))"
proof -
  from session [of m ns] obtain m' infos where
    run: "processBlocks m ns = Some m'"
    and hist: "blockHistory m' = insertAllCap historyCapacity (blockHistory m) infos"
    and nums: "map Number infos = map (\<lambda>(h, b). Header.Number h) (folded ns)"
    by blast
  from nums have len: "length infos = length (folded ns)"
    by (metis length_map)
  have "blockHistory m'
      = drop (length (blockHistory m @ infos) - historyCapacity) (blockHistory m @ infos)"
    unfolding hist using assms by (rule insertAllCap_eq)
  then have eq: "map Number (blockHistory m')
      = drop (length (blockHistory m) + length (folded ns) - historyCapacity)
          (map Number (blockHistory m) @ map (\<lambda>(h, b). Header.Number h) (folded ns))"
    by (simp add: drop_map len nums [symmetric])
  have "distinct (map Number (blockHistory m'))"
    if "distinct (map Number (blockHistory m) @ map (\<lambda>(h, b). Header.Number h) (folded ns))"
    unfolding eq using that by (rule distinct_drop)
  with run eq show ?thesis by blast
qed

theorem history_holds_every_fetched_block_witness:
  "\<exists>m'. processBlocks freshMonitor
          [fetchedAt 7 1700000000 [], failedAt 8 1700000012, fetchedAt 9 1700000024 []] = Some m'
     \<and> map Number (blockHistory m') = [7, 9]
     \<and> distinct (map Number (blockHistory m'))"
  using history_holds_every_fetched_block [of freshMonitor
      "[fetchedAt 7 1700000000 [], failedAt 8 1700000012, fetchedAt 9 1700000024 []]"]
  by (simp add: freshMonitor_def historyCapacity_def fetchedAt_def failedAt_def headerAt_def)

text \<open>
  Claim C4 as stated fails: two notifications with the same block number (as a
  reorganisation of the chain delivers them) are both folded, counted and kept.
\<close>

theorem history_duplicate_numbers:
  "(case processBlocks freshMonitor [fetchedAt 7 1700000000 [], fetchedAt 7 1700000012 []] of
      None \<Rightarrow> False
    | Some m' \<Rightarrow> map Number (blockHistory m') = [7, 7]
                 \<and> \<not> distinct (map Number (blockHistory m'))
                 \<and> BlockCount (stats m') = 2)"
  by code_simp

subsection \<open>Running minima and maxima\<close>

lemma foldl_max_Max:
  fixes a :: "'a :: linorder"
  shows "foldl max a xs = Max (insert a (set xs))"
proof -
  have "foldl max a xs = fold max xs a"
    by (simp add: foldl_conv_fold max.commute)
  also have "\<dots> = Max (set (a # xs))"
    by (rule Max.set_eq_fold [symmetric])
  finally show ?thesis by simp
qed

lemma foldl_min_Min:
  fixes a :: "'a :: linorder"
  shows "foldl min a xs = Min (insert a (set xs))"
proof -
  have "foldl min a xs = fold min xs a"
    by (simp add: foldl_conv_fold min.commute)
  also have "\<dots> = Min (set (a # xs))"
    by (rule Min.set_eq_fold [symmetric])
  finally show ?thesis by simp
qed

lemma Min_le_Max_list:
  fixes xs :: "('a :: linorder) list"
  assumes "xs \<noteq> []"
  shows "Min (set xs) \<le> Max (set xs)"
proof -
  from assms obtain x where "x \<in> set xs" by (cases xs) auto
  then have "Min (set xs) \<le> x" "x \<le> Max (set xs)" by simp_all
  then show ?thesis by (rule order_trans)
qed

lemma Max_insert_low:
  fixes a :: "'a :: linorder"
  assumes "xs \<noteq> []" "\<forall>x \<in> set xs. a \<le> x"
  shows "Max (insert a (set xs)) = Max (set xs)"
proof -
  from assms obtain x where "x \<in> set xs" "a \<le> x" by (cases xs) auto
  then have "a \<le> Max (set xs)" by (meson List.finite_set Max_ge order_trans)
  with assms(1) show ?thesis by (simp add: max_absorb2)
qed

lemma Min_insert_high:
  fixes a :: "'a :: linorder"
  assumes "xs \<noteq> []" "\<forall>x \<in> set xs. x \<le> a"
  shows "Min (insert a (set xs)) = Min (set xs)"
proof -
  from assms obtain x where "x \<in> set xs" "x \<le> a" by (cases xs) auto
  then have "Min (set xs) \<le> a" by (meson List.finite_set Min_le order_trans)
  with assms(1) show ?thesis by (simp add: min_absorb2)
qed

text \<open>
  Claim C10. \<^verbatim>\<open>NewBlockMonitor\<close> sets the minima to 999999 and to \<open>2 ^ 64 - 1\<close>. After a
  session that folded at least one record, the maxima are the largest transaction count
  and the largest gas used of the folded records, \<^verbatim>\<open>MinGasUsage\<close> is the smallest gas
  used, \<^verbatim>\<open>MinTxsPerBlock\<close> is the smallest transaction count when no count exceeds
  999999, and each minimum is at most its maximum.
\<close>

theorem running_extremes:
  assumes "NewBlockMonitor True now = Some m0"
    and "folded ns \<noteq> []"
  shows "MinTxsPerBlock (stats m0) = 999999 \<and> unat (MinGasUsage (stats m0)) = 2 ^ 64 - 1
     \<and> (\<exists>m'. processBlocks m0 ns = Some m'
          \<and> MaxTxsPerBlock (stats m')
              = Max (set (map (\<lambda>(h, b). int (length (Transactions b))) (folded ns)))
          \<and> MaxGasUsage (stats m') = Max (set (map (\<lambda>(h, b). Header.GasUsed h) (folded ns)))
          \<and> MinGasUsage (stats m') = Min (set (map (\<lambda>(h, b). Header.GasUsed h) (folded ns)))
          \<and> ((\<forall>(h, b) \<in> set (folded ns). int (length (Transactions b)) \<le> 999999)
               \<longrightarrow> MinTxsPerBlock (stats m')
                   = Min (set (map (\<lambda>(h, b). int (length (Transactions b))) (folded ns))))
          \<and> MinTxsPerBlock (stats m') \<le> MaxTxsPerBlock (stats m')
          \<and> MinGasUsage (stats m') \<le> MaxGasUsage (stats m'))"
proof -
  let ?counts = "map (\<lambda>(h, b). int (length (Transactions b))) (folded ns)"
  let ?gas = "map (\<lambda>(h, b). Header.GasUsed h) (folded ns)"
  from assms(1) have m0: "MinTxsPerBlock (stats m0) = 999999" "MinGasUsage (stats m0) = - 1"
    "MaxTxsPerBlock (stats m0) = 0" "MaxGasUsage (stats m0) = 0"
    by (auto simp: NewBlockMonitor_def)
  from session [of m0 ns] obtain m' and infos :: "BlockInfo list" where
    run: "processBlocks m0 ns = Some m'"
    and txs: "map TxCount infos = ?counts"
    and gas: "map GasUsed infos = ?gas"
    and ext: "MaxTxsPerBlock (stats m') = foldl max (MaxTxsPerBlock (stats m0)) (map TxCount infos)"
      "MinTxsPerBlock (stats m') = foldl min (MinTxsPerBlock (stats m0)) (map TxCount infos)"
      "MaxGasUsage (stats m') = foldl max (MaxGasUsage (stats m0)) (map GasUsed infos)"
      "MinGasUsage (stats m') = foldl min (MinGasUsage (stats m0)) (map GasUsed infos)"
    by blast
  have ne: "?counts \<noteq> []" "?gas \<noteq> []" using assms(2) by simp_all
  have nonneg: "\<forall>c \<in> set ?counts. 0 \<le> c" by auto
  have maxT: "MaxTxsPerBlock (stats m') = Max (set ?counts)"
    unfolding ext txs m0 foldl_max_Max using ne(1) nonneg by (rule Max_insert_low)
  have maxG: "MaxGasUsage (stats m') = Max (set ?gas)"
    unfolding ext gas m0 foldl_max_Max using ne(2) by (rule Max_insert_low) simp
  have minG: "MinGasUsage (stats m') = Min (set ?gas)"
    unfolding ext gas m0 foldl_min_Min using ne(2) by (rule Min_insert_high) simp
  have minT: "MinTxsPerBlock (stats m') = Min (insert 999999 (set ?counts))"
    unfolding ext txs m0 foldl_min_Min ..
  have minT': "MinTxsPerBlock (stats m') = Min (set ?counts)"
    if "\<forall>(h, b) \<in> set (folded ns). int (length (Transactions b)) \<le> 999999"
  proof -
    from that have "\<forall>c \<in> set ?counts. c \<le> 999999" by auto
    with ne(1) show ?thesis unfolding minT by (rule Min_insert_high)
  qed
  have "Min (insert 999999 (set ?counts)) \<le> Min (set ?counts)"
    using ne(1) by (intro Min_antimono) auto
  also have "\<dots> \<le> Max (set ?counts)"
    using ne(1) by (rule Min_le_Max_list)
  finally have leT: "MinTxsPerBlock (stats m') \<le> MaxTxsPerBlock (stats m')"
    by (simp add: minT maxT)
  have leG: "MinGasUsage (stats m') \<le> MaxGasUsage (stats m')"
    unfolding minG maxG using ne(2) by (rule Min_le_Max_list)
  have "unat (MinGasUsage (stats m0)) = 2 ^ 64 - 1"
    by (simp add: m0 unsigned_minus_1_eq_mask mask_eq_exp_minus_1)
  with m0(1) run maxT maxG minG minT' leT leG show ?thesis by blast
qed

theorem running_extremes_witness:
  "NewBlockMonitor True 0 = Some freshMonitor
   \<and> folded [fetchedAt 7 1700000000 [\<lparr>Transaction.GasPrice = Some 5\<rparr>], failedAt 8 1700000012,
               fetchedAt 9 1700000024 []] \<noteq> []
   \<and> (\<exists>m'. processBlocks freshMonitor
             [fetchedAt 7 1700000000 [\<lparr>Transaction.GasPrice = Some 5\<rparr>], failedAt 8 1700000012,
              fetchedAt 9 1700000024 []] = Some m'
          \<and> MaxTxsPerBlock (stats m') = 1 \<and> MinTxsPerBlock (stats m') = 0
          \<and> MaxGasUsage (stats m') = 21000 \<and> MinGasUsage (stats m') = 21000)"
proof -
  let ?ns = "[fetchedAt 7 1700000000 [\<lparr>Transaction.GasPrice = Some 5\<rparr>], failedAt 8 1700000012,
              fetchedAt 9 1700000024 []]"
  have a: "NewBlockMonitor True 0 = Some freshMonitor"
    by (simp add: NewBlockMonitor_def freshMonitor_def)
  have f: "folded ?ns =
      [(headerAt 7 1700000000,
        \<lparr>header = headerAt 7 1700000000, Transactions = [\<lparr>Transaction.GasPrice = Some 5\<rparr>]\<rparr>),
       (headerAt 9 1700000024, \<lparr>header = headerAt 9 1700000024, Transactions = []\<rparr>)]"
    by (simp add: fetchedAt_def failedAt_def)
  have b: "folded ?ns \<noteq> []"
    unfolding f by simp
  from running_extremes [OF a b] obtain m' where
    "processBlocks freshMonitor ?ns = Some m'"
    "MaxTxsPerBlock (stats m') = 1" "MinTxsPerBlock (stats m') = 0"
    "MaxGasUsage (stats m') = 21000" "MinGasUsage (stats m') = 21000"
    unfolding f by (auto simp: headerAt_def)
  with a b show ?thesis by blast
qed

subsection \<open>Stopping the monitor\<close>

text \<open>
  Claim C3, as the code has it. \<^verbatim>\<open>Stop\<close> has no branch that fails, and its cancellation is
  idempotent: after a second call the context is still cancelled and the statistics, the
  history and the rules are what they were. It is not a no-op: every call prints a final
  report. The second report is built from the same statistics and repeats the first,
  except for the elapsed time, which is read from the clock at the second call.
\<close>

theorem stop_cancels_once_reports_each_time:
  "\<exists>r. printed (Stop now1 m) = printed m @ [FinalReportPrinted r]
     \<and> printed (Stop now2 (Stop now1 m))
         = printed m @ [FinalReportPrinted r,
                        FinalReportPrinted (r\<lparr>reportDuration := subMono now2 (StartTime (stats m))\<rparr>)]
     \<and> ctxDone (Stop now1 m) \<and> ctxDone (Stop now2 (Stop now1 m))
     \<and> stats (Stop now2 (Stop now1 m)) = stats m
     \<and> blockHistory (Stop now2 (Stop now1 m)) = blockHistory m
     \<and> alertRules (Stop now2 (Stop now1 m)) = alertRules m"
  by (simp add: Stop_def generateFinalReport_def Let_def)

text \<open>
  Claim C3 as stated fails: a second \<^verbatim>\<open>Stop\<close> prints a second final report, and a second
  later its content differs from the first.
\<close>

theorem stop_twice_reports_twice:
  "printed (Stop 2000000000 (Stop 1000000000 freshMonitor))
     = [FinalReportPrinted \<lparr>reportDuration = 1000000000, reportBlocks = 0, reportTxs = 0,
                           reportAverages = False, reportBlockTime = None, reportGas = 0\<rparr>,
        FinalReportPrinted \<lparr>reportDuration = 2000000000, reportBlocks = 0, reportTxs = 0,
                           reportAverages = False, reportBlockTime = None, reportGas = 0\<rparr>]
   \<and> Stop 2000000000 (Stop 1000000000 freshMonitor) \<noteq> Stop 1000000000 freshMonitor"
  by (simp add: Stop_def generateFinalReport_def freshMonitor_def subMono_def wrap64_def Let_def)

subsection \<open>After a subscription error\<close>

lemma subscribeNewHeads_sustained_aux:
  assumes "subscribeNewHeads client k st = Some y"
  shows "client \<noteq> (\<lambda>k. Subscribed [SubErr])"
proof (rule subscribeNewHeads.raw_induct
    [where P = "\<lambda>c k st y. c \<noteq> (\<lambda>k. Subscribed [SubErr])", OF _ assms])
  fix rec c and j :: nat and s :: BlockStats and r
  assume IH: "\<And>c j s r. rec c j s = Some r \<Longrightarrow> c \<noteq> (\<lambda>k. Subscribed [SubErr])"
    and body: "(case c j of
        SubscribeFailed \<Rightarrow> Some (Fatal, j)
      | Subscribed evs \<Rightarrow>
          (case headsLoop s evs of
             (EndError, st') \<Rightarrow> rec c (j + 1) st'
           | (EndDone, st') \<Rightarrow> Some (Returned st', j)
           | (EndBlocked, st') \<Rightarrow> Some (Blocked st', j))) = Some r"
  show "c \<noteq> (\<lambda>k. Subscribed [SubErr])"
  proof
    assume c: "c = (\<lambda>k. Subscribed [SubErr])"
    with body have "rec c (j + 1) s = Some r" by simp
    then have "c \<noteq> (\<lambda>k. Subscribed [SubErr])" by (rule IH)
    with c show False by contradiction
  qed
qed

lemma headsLoop_until_error:
  "headsLoop st (map NewHead ns @ SubErr # evs)
     = (EndError, foldl (\<lambda>s n. processNewHeader n s) st ns)"
  by (induction ns arbitrary: st) simp_all

lemma headsLoop_until_done:
  "headsLoop st (map NewHead ns @ CtxDone # evs)
     = (EndDone, foldl (\<lambda>s n. processNewHeader n s) st ns)"
  by (induction ns arbitrary: st) simp_all

lemma startLoop_until_error:
  "startLoop m (map NewHead ns @ SubErr # evs)
     = (case processBlocks m ns of
          None \<Rightarrow> Panicked
        | Some m' \<Rightarrow> Returned (m'\<lparr>printed := printed m' @ [SubscriptionError]\<rparr>))"
  by (induction ns arbitrary: m) (simp_all split: option.splits)

lemma subscribeNewHeads_chain:
  assumes err: "\<And>j. k \<le> j \<Longrightarrow> j < n
                \<Longrightarrow> \<exists>ns evs. client j = Subscribed (map NewHead ns @ SubErr # evs)"
    and fin: "client n = Subscribed (map NewHead ns' @ CtxDone # evs')"
    and le: "k \<le> n"
  shows "\<exists>st'. subscribeNewHeads client k st = Some (Returned st', n)"
  using err le
proof (induction "n - k" arbitrary: k st)
  case 0
  then have "k = n" by simp
  then show ?case
    by (subst subscribeNewHeads.simps) (simp add: fin headsLoop_until_done)
next
  case (Suc d)
  then have lt: "k < n" by simp
  with Suc.prems(1) [of k] obtain ns evs where
    c: "client k = Subscribed (map NewHead ns @ SubErr # evs)" by auto
  have "\<exists>st'. subscribeNewHeads client (k + 1) (foldl (\<lambda>s n. processNewHeader n s) st ns)
          = Some (Returned st', n)"
  proof (rule Suc.hyps(1))
    show "d = n - (k + 1)" using Suc.hyps(2) by simp
    show "\<exists>ns evs. client j = Subscribed (map NewHead ns @ SubErr # evs)"
      if "k + 1 \<le> j" "j < n" for j
      using that Suc.prems(1) [of j] by simp
    show "k + 1 \<le> n" using lt by simp
  qed
  then show ?case
    by (subst subscribeNewHeads.simps) (simp add: c headsLoop_until_error)
qed

text \<open>
  Claim C5, as the code has it. In the advanced monitor \<^verbatim>\<open>Start\<close> logs the subscription
  error and returns: it ends at once and never subscribes again, whatever comes after
  the error. In the plain subscriber \<^verbatim>\<open>subscribeNewHeads\<close> subscribes again after every
  subscription error, with no bound on the number of attempts: when the first \<open>n\<close>
  subscriptions end in an error and the next one ends with the cancelled context, it
  has subscribed \<open>n\<close> times again, for every \<open>n\<close>.
\<close>

theorem reconnect_policies:
  "(\<exists>m'. Start m (Subscribed (map NewHead ns @ SubErr # evs)) = Returned m'
         \<and> last (printed m') = SubscriptionError)
   \<and> ((\<forall>j<n. client j = Subscribed (map NewHead (hs j) @ SubErr # es j))
        \<and> client n = Subscribed (map NewHead (hs n) @ CtxDone # es n)
        \<longrightarrow> (\<exists>st'. subscribeNewHeads client 0 st = Some (Returned st', n)))"
proof (intro conjI impI)
  let ?m = "m\<lparr>printed := printed m @ [MonitorStarted]\<rparr>"
  from session [of ?m ns] obtain m' where "processBlocks ?m ns = Some m'" by blast
  then show "\<exists>m'. Start m (Subscribed (map NewHead ns @ SubErr # evs)) = Returned m'
         \<and> last (printed m') = SubscriptionError"
    by (simp add: Start_def startLoop_until_error)
next
  assume a: "(\<forall>j<n. client j = Subscribed (map NewHead (hs j) @ SubErr # es j))
        \<and> client n = Subscribed (map NewHead (hs n) @ CtxDone # es n)"
  show "\<exists>st'. subscribeNewHeads client 0 st = Some (Returned st', n)"
  proof (rule subscribeNewHeads_chain)
    show "\<exists>ns evs. client j = Subscribed (map NewHead ns @ SubErr # evs)"
      if "0 \<le> j" "j < n" for j
      using a that by blast
    show "client n = Subscribed (map NewHead (hs n) @ CtxDone # es n)"
      using a by simp
    show "0 \<le> n" by simp
  qed
qed

theorem reconnect_policies_witness:
  "\<exists>st'. subscribeNewHeads (\<lambda>k. if k < 3 then Subscribed [SubErr] else Subscribed [CtxDone]) 0
           \<lparr>BlockStats.StartTime = 0, BlockStats.BlockCount = 0, BlockStats.TotalTxs = 0,
            BlockStats.TotalGasUsed = 0, LastBlock = None\<rparr> = Some (Returned st', 3)"
  using reconnect_policies [of freshMonitor "[]" "[]" 3
      "\<lambda>k. if k < 3 then Subscribed [SubErr] else Subscribed [CtxDone]" "\<lambda>k. []" "\<lambda>k. []"]
  by simp

text \<open>
  Claim C5 as stated fails in block\_subscribe.go: when every subscription ends in an
  error, the chain of re-subscriptions never ends.
\<close>

theorem resubscription_never_ends:
  "subscribeNewHeads (\<lambda>k. Subscribed [SubErr]) 0
     \<lparr>BlockStats.StartTime = 0, BlockStats.BlockCount = 0, BlockStats.TotalTxs = 0,
      BlockStats.TotalGasUsed = 0, LastBlock = None\<rparr> = None"
proof (rule ccontr)
  assume "subscribeNewHeads (\<lambda>k. Subscribed [SubErr]) 0
     \<lparr>BlockStats.StartTime = 0, BlockStats.BlockCount = 0, BlockStats.TotalTxs = 0,
      BlockStats.TotalGasUsed = 0, LastBlock = None\<rparr> \<noteq> None"
  then obtain y where "subscribeNewHeads (\<lambda>k. Subscribed [SubErr]) 0
     \<lparr>BlockStats.StartTime = 0, BlockStats.BlockCount = 0, BlockStats.TotalTxs = 0,
      BlockStats.TotalGasUsed = 0, LastBlock = None\<rparr> = Some y" by blast
  then show False using subscribeNewHeads_sustained_aux by blast
qed

subsection \<open>One tick of the polling monitor\<close>

lemma wrap64_add_left: "wrap64 (wrap64 x + y) = wrap64 (x + y)"
proof -
  have "(wrap64 x + y + 2 ^ 63) mod 2 ^ 64 = ((x + 2 ^ 63) mod 2 ^ 64 + y) mod 2 ^ 64"
    by (simp add: wrap64_def algebra_simps)
  also have "\<dots> = (x + 2 ^ 63 + y) mod 2 ^ 64"
    by (simp add: mod_add_left_eq)
  finally show ?thesis
    by (simp add: wrap64_def algebra_simps)
qed

lemma pollBlocks_run:
  assumes "unat currentBlock < 2 ^ 64 - 1" and "unat blockNum \<le> Suc (unat currentBlock)"
  shows "\<exists>st'. pollBlocks client blockNum currentBlock st = Some st'
     \<and> processed st' = processed st @ map of_nat [unat blockNum ..< Suc (unat currentBlock)]
     \<and> blockCount st'
         = (if Suc (unat currentBlock) - unat blockNum = 0 then blockCount st
            else wrap64 (blockCount st + int (Suc (unat currentBlock) - unat blockNum)))
     \<and> lastBlockNumber st' = lastBlockNumber st
     \<and> length (pollPrinted st')
         = length (pollPrinted st) + (Suc (unat currentBlock) - unat blockNum)"
  using assms(2)
proof (induction "Suc (unat currentBlock) - unat blockNum" arbitrary: blockNum st)
  case 0
  then have "\<not> blockNum \<le> currentBlock" by (simp add: word_le_nat_alt)
  with 0 show ?case by (subst pollBlocks.simps) simp
next
  case (Suc d)
  then have le: "unat blockNum \<le> unat currentBlock" by simp
  then have wle: "blockNum \<le> currentBlock" by (simp add: word_le_nat_alt)
  from le assms(1) have "unat blockNum + 1 < 2 ^ 64" by simp
  then have suc: "unat (blockNum + 1) = Suc (unat blockNum)"
    by (simp add: unat_word_ariths)
  let ?st1 = "(poll_processBlock client blockNum st)\<lparr>blockCount := wrap64 (blockCount st + 1)\<rparr>"
  have st1: "processed ?st1 = processed st @ [blockNum]"
    "blockCount ?st1 = wrap64 (blockCount st + 1)" "lastBlockNumber ?st1 = lastBlockNumber st"
    "length (pollPrinted ?st1) = Suc (length (pollPrinted st))"
    by (simp_all add: poll_processBlock_def Let_def split: option.splits)
  have "\<exists>st'. pollBlocks client (blockNum + 1) currentBlock ?st1 = Some st'
     \<and> processed st' = processed ?st1 @ map of_nat [unat (blockNum + 1) ..< Suc (unat currentBlock)]
     \<and> blockCount st'
         = (if Suc (unat currentBlock) - unat (blockNum + 1) = 0 then blockCount ?st1
            else wrap64 (blockCount ?st1 + int (Suc (unat currentBlock) - unat (blockNum + 1))))
     \<and> lastBlockNumber st' = lastBlockNumber ?st1
     \<and> length (pollPrinted st')
         = length (pollPrinted ?st1) + (Suc (unat currentBlock) - unat (blockNum + 1))"
  proof (rule Suc.hyps(1))
    show "d = Suc (unat currentBlock) - unat (blockNum + 1)"
      using Suc.hyps(2) by (simp add: suc)
    show "unat (blockNum + 1) \<le> Suc (unat currentBlock)"
      using le by (simp add: suc)
  qed
  then obtain st' where r: "pollBlocks client (blockNum + 1) currentBlock ?st1 = Some st'"
    "processed st' = processed ?st1 @ map of_nat [unat (blockNum + 1) ..< Suc (unat currentBlock)]"
    "blockCount st'
         = (if Suc (unat currentBlock) - unat (blockNum + 1) = 0 then blockCount ?st1
            else wrap64 (blockCount ?st1 + int (Suc (unat currentBlock) - unat (blockNum + 1))))"
    "lastBlockNumber st' = lastBlockNumber ?st1"
    "length (pollPrinted st')
         = length (pollPrinted ?st1) + (Suc (unat currentBlock) - unat (blockNum + 1))"
    by blast
  have upt: "[unat blockNum ..< Suc (unat currentBlock)]
      = unat blockNum # [Suc (unat blockNum) ..< Suc (unat currentBlock)]"
    using le by (simp add: upt_conv_Cons)
  have "pollBlocks client blockNum currentBlock st = Some st'"
    using wle r(1) by (subst pollBlocks.simps) simp
  moreover have "processed st' = processed st @ map of_nat [unat blockNum ..< Suc (unat currentBlock)]"
    unfolding upt by (simp add: r(2) st1(1) suc)
  moreover have "blockCount st'
      = wrap64 (blockCount st + int (Suc (unat currentBlock) - unat blockNum))"
  proof (cases "Suc (unat currentBlock) - unat (blockNum + 1) = 0")
    case True
    with le have "Suc (unat currentBlock) - unat blockNum = 1" by (simp add: suc)
    with True show ?thesis by (simp add: r(3) st1(2))
  next
    case False
    have "int (Suc (unat currentBlock) - unat blockNum)
        = 1 + int (Suc (unat currentBlock) - unat (blockNum + 1))"
      using le by (simp add: suc)
    with False show ?thesis
      by (simp add: r(3) st1(2) wrap64_add_left add.assoc)
  qed
  moreover have "Suc (unat currentBlock) - unat blockNum \<noteq> 0"
    using le by simp
  moreover have "lastBlockNumber st' = lastBlockNumber st"
    by (simp add: r(4) st1(3))
  moreover have "length (pollPrinted st')
         = length (pollPrinted st) + (Suc (unat currentBlock) - unat blockNum)"
    using le r(5) st1(4) unfolding suc by linarith
  ultimately show ?case by simp
qed

lemma pollBlocks_never_passes_the_largest:
  assumes "pollBlocks client blockNum currentBlock st = Some y"
  shows "currentBlock \<noteq> - 1"
proof (rule pollBlocks.raw_induct
    [where P = "\<lambda>c b cur s r. cur \<noteq> - 1", OF _ assms])
  fix rec and c :: "int \<Rightarrow> Block option" and b cur :: uint64 and s r :: PollState
  assume IH: "\<And>c b cur s r. rec c b cur s = Some r \<Longrightarrow> cur \<noteq> - 1"
    and body: "(if b \<le> cur
        then rec c (b + 1) cur ((poll_processBlock c b s)\<lparr>blockCount := wrap64 (blockCount s + 1)\<rparr>)
        else Some s) = Some r"
  show "cur \<noteq> - 1"
  proof
    assume top: "cur = - 1"
    then have "b \<le> cur" by simp
    with body have "rec c (b + 1) cur
        ((poll_processBlock c b s)\<lparr>blockCount := wrap64 (blockCount s + 1)\<rparr>) = Some r"
      by simp
    then have "cur \<noteq> - 1" by (rule IH)
    with top show False by contradiction
  qed
qed

lemma pollTick_new_blocks:
  assumes "lastBlockNumber st < currentBlock" and "unat currentBlock < 2 ^ 64 - 1"
  shows "\<exists>st'. pollTick client (Some currentBlock) st = Some st'
     \<and> processed st' = processed st
          @ map of_nat [Suc (unat (lastBlockNumber st)) ..< Suc (unat currentBlock)]
     \<and> lastBlockNumber st' = currentBlock
     \<and> blockCount st'
         = wrap64 (blockCount st + int (unat currentBlock - unat (lastBlockNumber st)))"
proof -
  let ?st0 = "st\<lparr>pollPrinted := pollPrinted st
                 @ [NewBlocksFound (currentBlock - lastBlockNumber st)]\<rparr>"
  from assms(1) have lt: "unat (lastBlockNumber st) < unat currentBlock"
    by (simp add: word_less_nat_alt)
  with assms(2) have "unat (lastBlockNumber st) + 1 < 2 ^ 64" by simp
  then have suc: "unat (lastBlockNumber st + 1) = Suc (unat (lastBlockNumber st))"
    by (simp add: unat_word_ariths)
  have "unat (lastBlockNumber st + 1) \<le> Suc (unat currentBlock)"
    using lt by (simp add: suc)
  from pollBlocks_run [OF assms(2) this, of client ?st0] obtain st1 where
    r: "pollBlocks client (lastBlockNumber st + 1) currentBlock ?st0 = Some st1"
    "processed st1 = processed ?st0
        @ map of_nat [unat (lastBlockNumber st + 1) ..< Suc (unat currentBlock)]"
    "blockCount st1
        = (if Suc (unat currentBlock) - unat (lastBlockNumber st + 1) = 0 then blockCount ?st0
           else wrap64 (blockCount ?st0
                  + int (Suc (unat currentBlock) - unat (lastBlockNumber st + 1))))"
    by blast
  have "pollTick client (Some currentBlock) st = Some (st1\<lparr>lastBlockNumber := currentBlock\<rparr>)"
    using assms(1) r(1) by (simp add: pollTick_def)
  moreover have "processed (st1\<lparr>lastBlockNumber := currentBlock\<rparr>) = processed st
          @ map of_nat [Suc (unat (lastBlockNumber st)) ..< Suc (unat currentBlock)]"
    by (simp add: r(2) suc)
  moreover have "blockCount (st1\<lparr>lastBlockNumber := currentBlock\<rparr>)
      = wrap64 (blockCount st + int (unat currentBlock - unat (lastBlockNumber st)))"
    using lt by (simp add: r(3) suc)
  ultimately show ?thesis by simp
qed

text \<open>
  Claim C6, as the code has it, for the polling block monitor. On a tick the monitor
  asks for the latest block number. When the request fails it logs and changes nothing
  else. When the number is not above the last one seen it only prints that it waits.
  Otherwise, for a latest number below \<open>2 ^ 64 - 1\<close>, it calls \<^verbatim>\<open>processBlock\<close> once for
  every number from the one after the last seen up to the latest, in ascending order and
  without any bound on how far back that reaches, counts them in \<^verbatim>\<open>blockCount\<close> (with
  the wrap-around of \<^verbatim>\<open>int\<close>), and remembers the latest number; with 100 seen last and
  103 the latest, the blocks 101, 102 and 103 are processed in that order. For the
  latest number \<open>2 ^ 64 - 1\<close> the loop over the block numbers never ends.
\<close>

theorem poll_tick_catches_up:
  "pollTick client None st = Some (st\<lparr>pollPrinted := pollPrinted st @ [NumberFailed]\<rparr>)
   \<and> (currentBlock \<le> lastBlockNumber st
        \<longrightarrow> pollTick client (Some currentBlock) st
            = Some (st\<lparr>pollPrinted := pollPrinted st @ [Waiting currentBlock]\<rparr>))
   \<and> (lastBlockNumber st < currentBlock \<and> unat currentBlock < 2 ^ 64 - 1
        \<longrightarrow> (\<exists>st'. pollTick client (Some currentBlock) st = Some st'
               \<and> processed st' = processed st
                    @ map of_nat [Suc (unat (lastBlockNumber st)) ..< Suc (unat currentBlock)]
               \<and> lastBlockNumber st' = currentBlock
               \<and> blockCount st'
                   = wrap64 (blockCount st
                       + int (unat currentBlock - unat (lastBlockNumber st)))))
   \<and> (lastBlockNumber st < currentBlock \<and> unat currentBlock = 2 ^ 64 - 1
        \<longrightarrow> pollTick client (Some currentBlock) st = None)"
proof (intro conjI impI)
  show "pollTick client None st = Some (st\<lparr>pollPrinted := pollPrinted st @ [NumberFailed]\<rparr>)"
    by (simp add: pollTick_def)
  show "pollTick client (Some currentBlock) st
            = Some (st\<lparr>pollPrinted := pollPrinted st @ [Waiting currentBlock]\<rparr>)"
    if "currentBlock \<le> lastBlockNumber st"
    using that by (simp add: pollTick_def not_less [symmetric])
  show "\<exists>st'. pollTick client (Some currentBlock) st = Some st'
               \<and> processed st' = processed st
                    @ map of_nat [Suc (unat (lastBlockNumber st)) ..< Suc (unat currentBlock)]
               \<and> lastBlockNumber st' = currentBlock
               \<and> blockCount st'
                   = wrap64 (blockCount st + int (unat currentBlock - unat (lastBlockNumber st)))"
    if "lastBlockNumber st < currentBlock \<and> unat currentBlock < 2 ^ 64 - 1"
    using that by (intro pollTick_new_blocks) simp_all
  show "pollTick client (Some currentBlock) st = None"
    if top: "lastBlockNumber st < currentBlock \<and> unat currentBlock = 2 ^ 64 - 1"
  proof -
    have "unat currentBlock = unat (- 1 :: uint64)"
      using top by (simp add: unsigned_minus_1_eq_mask mask_eq_exp_minus_1)
    then have cur: "currentBlock = - 1"
      by (simp only: word_unat_eq_iff)
    have "pollBlocks client (lastBlockNumber st + 1) currentBlock s = None" for s
    proof (rule ccontr)
      assume "pollBlocks client (lastBlockNumber st + 1) currentBlock s \<noteq> None"
      then obtain y where "pollBlocks client (lastBlockNumber st + 1) currentBlock s = Some y"
        by blast
      then have "currentBlock \<noteq> - 1" by (rule pollBlocks_never_passes_the_largest)
      with cur show False by contradiction
    qed
    with top show ?thesis by (simp add: pollTick_def)
  qed
qed

theorem poll_tick_catches_up_witness:
  "\<exists>st'. pollTick (\<lambda>n. None) (Some 103)
           \<lparr>lastBlockNumber = 100, blockCount = 0, processed = [], pollPrinted = []\<rparr> = Some st'
     \<and> processed st' = [101, 102, 103]
     \<and> lastBlockNumber st' = 103
     \<and> blockCount st' = 3"
  using poll_tick_catches_up [of "\<lambda>n. None"
      "\<lparr>lastBlockNumber = 100, blockCount = 0, processed = [], pollPrinted = []\<rparr>" 103]
  by (simp add: upt_rec wrap64_def)

text \<open>
  Claim C6 as stated fails: no maximum look-back limits the catch-up. From block 0 a
  single tick processes every block up to the latest, here \<open>2 ^ 64 - 2\<close> of them.
\<close>

theorem poll_look_back_unbounded:
  "(case pollTick (\<lambda>n. None) (Some 18446744073709551614)
           \<lparr>lastBlockNumber = 0, blockCount = 0, processed = [], pollPrinted = []\<rparr> of
      None \<Rightarrow> False
    | Some st' \<Rightarrow> length (processed st') = 18446744073709551614)"
proof -
  let ?st = "\<lparr>lastBlockNumber = 0, blockCount = 0, processed = [], pollPrinted = []\<rparr>"
  have "lastBlockNumber ?st < (18446744073709551614 :: uint64)" by simp
  moreover have "unat (18446744073709551614 :: uint64) < 2 ^ 64 - 1" by simp
  ultimately obtain st' where
    "pollTick (\<lambda>n. None) (Some 18446744073709551614) ?st = Some st'"
    "processed st' = processed ?st
        @ map of_nat [Suc (unat (lastBlockNumber ?st)) ..< Suc (unat (18446744073709551614 :: uint64))]"
    using pollTick_new_blocks [of ?st 18446744073709551614 "\<lambda>n. None"] by blast
  then show ?thesis by simp
qed

subsection \<open>Intervals between blocks\<close>

lemma wrap64_id: "- (2 ^ 63) \<le> x \<Longrightarrow> x < 2 ^ 63 \<Longrightarrow> wrap64 x = x"
  by (simp add: wrap64_def)

lemma wrap64_range: "- (2 ^ 63) \<le> wrap64 x \<and> wrap64 x < 2 ^ 63"
proof -
  have "0 \<le> (x + 2 ^ 63) mod 2 ^ 64" "(x + 2 ^ 63) mod 2 ^ 64 < (2 ^ 64 :: int)"
    by simp_all
  then show ?thesis by (simp add: wrap64_def)
qed

lemma quo_rem_neg:
  assumes "d < 0"
  shows "quo d 1000000000 = - ((- d) div 1000000000)"
    and "rem d 1000000000 = - ((- d) mod 1000000000)"
proof -
  from assms show q: "quo d 1000000000 = - ((- d) div 1000000000)"
    by (simp add: quo_def)
  have "(- d) = 1000000000 * ((- d) div 1000000000) + (- d) mod 1000000000"
    by simp
  then show "rem d 1000000000 = - ((- d) mod 1000000000)"
    unfolding rem_def q by linarith
qed

lemma quo_rem_nonneg:
  assumes "0 \<le> d"
  shows "quo d 1000000000 = d div 1000000000"
    and "rem d 1000000000 = d mod 1000000000"
proof -
  from assms show q: "quo d 1000000000 = d div 1000000000"
    by (simp add: quo_def)
  have "d = 1000000000 * (d div 1000000000) + d mod 1000000000"
    by simp
  then show "rem d 1000000000 = d mod 1000000000"
    unfolding rem_def q by linarith
qed

lemma quo_rem_multiple:
  "quo (k * 1000000000) 1000000000 = k" "rem (k * 1000000000) 1000000000 = 0"
proof -
  show "quo (k * 1000000000) 1000000000 = k"
  proof (cases "k < 0")
    case True
    then have "k * 1000000000 < 0" by simp
    then show ?thesis by (simp add: quo_rem_neg(1))
  next
    case False
    then have "0 \<le> k * 1000000000" by simp
    then show ?thesis by (simp add: quo_rem_nonneg(1))
  qed
  then show "rem (k * 1000000000) 1000000000 = 0"
    by (simp add: rem_def)
qed

lemma addSec_nsec: "nsec (addSec t d) = nsec t"
  by (simp add: addSec_def Let_def)

lemma addSec_in_range:
  assumes "- (2 ^ 63) \<le> sec t + d" "sec t + d < 2 ^ 63"
  shows "sec (addSec t d) = sec t + d"
proof -
  have "wrap64 (sec t + d) = sec t + d" using assms by (rule wrap64_id)
  then show ?thesis by (auto simp: addSec_def Let_def)
qed


lemma time_Unix_in_range:
  assumes "0 \<le> a" "a < 9223371974719179008"
  shows "time_Unix a = \<lparr>sec = a + 62135596800, nsec = 0\<rparr>"
    and "\<not> IsZero (time_Unix a)"
proof -
  have "wrap64 (a + 62135596800) = a + 62135596800"
    using assms by (intro wrap64_id) simp_all
  then show "time_Unix a = \<lparr>sec = a + 62135596800, nsec = 0\<rparr>"
    by (simp add: time_Unix_def unixToInternal_def)
  then show "\<not> IsZero (time_Unix a)"
    using assms by (simp add: IsZero_def)
qed

lemma time_Sub_exact:
  assumes a: "0 \<le> a" "a < 9223371974719179008"
    and b: "0 \<le> b" "b < 9223371974719179008"
    and d: "\<bar>a - b\<bar> \<le> 9223372036"
  shows "time_Sub (time_Unix a) (time_Unix b) = (a - b) * Second"
proof -
  let ?t = "\<lparr>sec = a + 62135596800, nsec = 0\<rparr>"
  let ?u = "\<lparr>sec = b + 62135596800, nsec = 0\<rparr>"
  define k where "k = a - b"
  have k: "\<bar>k\<bar> \<le> 9223372036" "b + k = a"
    using d by (simp_all add: k_def)
  have w1: "wrap64 k = k"
    using k(1) by (intro wrap64_id) simp_all
  have w2: "wrap64 (k * 1000000000) = k * 1000000000"
    using k(1) by (intro wrap64_id) simp_all
  have dur: "wrap64 (wrap64 (sec ?t - sec ?u) * Second + (nsec ?t - nsec ?u)) = k * 1000000000"
    using w1 w2 k(2) by (simp add: Second_def k_def)
  have add: "time_Add ?u (k * 1000000000) = addSec ?u k"
    by (simp add: time_Add_def quo_rem_multiple Let_def)
  have "sec (addSec ?u k) = sec ?u + k"
    using a b k(2) by (intro addSec_in_range) simp_all
  moreover have "nsec (addSec ?u k) = 0"
    by (simp add: addSec_nsec)
  ultimately have "time_Equal (time_Add ?u (k * 1000000000)) ?t"
    using k(2) by (simp add: add time_Equal_def)
  then have "time_Sub ?t ?u = k * 1000000000"
    unfolding time_Sub_def dur by (simp add: Let_def)
  then show ?thesis
    by (simp add: time_Unix_in_range(1) a b k_def Second_def)
qed

lemma time_Add_backwards:
  assumes u: "62135596800 \<le> sec u" "sec u < 2 ^ 63" "nsec u = 0"
    and d: "d < 0" "- (2 ^ 63) \<le> d"
  shows "nsec (time_Add u d) \<noteq> 0 \<or> sec (time_Add u d) < sec u"
proof (cases "(- d) mod 1000000000 = 0")
  case True
  let ?q = "(- d) div 1000000000"
  have "- d = 1000000000 * ?q"
    using True by (metis add.right_neutral mult_div_mod_eq)
  with d have q: "0 < ?q" "?q \<le> 9223372036" by simp_all
  have same: "u\<lparr>nsec := 0\<rparr> = u"
    using u(3) by (cases u) simp
  have eq: "time_Add u d = addSec u (- ?q)"
    using d(1) True u(3) by (simp add: time_Add_def quo_rem_neg Let_def same)
  have "sec (addSec u (- ?q)) = sec u + (- ?q)"
    using u q by (intro addSec_in_range) simp_all
  with q(1) show ?thesis by (simp add: eq)
next
  case False
  let ?r = "(- d) mod 1000000000"
  have "0 \<le> ?r" "?r < 1000000000"
    by simp_all
  with False have r: "0 < ?r" "?r < 1000000000"
    by linarith+
  have "time_Add u d
      = addSec (u\<lparr>nsec := - ?r + 1000000000\<rparr>) (- ((- d) div 1000000000) - 1)"
    using d(1) r u(3) by (simp add: time_Add_def quo_rem_neg Let_def)
  then have "nsec (time_Add u d) = - ?r + 1000000000"
    by (simp add: addSec_nsec)
  with r have "nsec (time_Add u d) \<noteq> 0"
    by linarith
  then show ?thesis ..
qed

lemma time_Sub_nonneg:
  assumes a: "0 \<le> a" "a < 9223371974719179008"
    and b: "0 \<le> b" "b < 9223371974719179008"
    and le: "b \<le> a"
  shows "0 \<le> time_Sub (time_Unix a) (time_Unix b)"
proof -
  let ?t = "\<lparr>sec = a + 62135596800, nsec = 0\<rparr>"
  let ?u = "\<lparr>sec = b + 62135596800, nsec = 0\<rparr>"
  define d where "d = wrap64 (wrap64 (sec ?t - sec ?u) * Second + (nsec ?t - nsec ?u))"
  have notBefore: "\<not> time_Before ?t ?u"
    using le by (simp add: time_Before_def)
  have sub: "time_Sub ?t ?u = (if time_Equal (time_Add ?u d) ?t then d else maxDuration)"
    using notBefore by (simp add: time_Sub_def d_def Let_def)
  have "0 \<le> d" if eq: "time_Equal (time_Add ?u d) ?t"
  proof (rule ccontr)
    assume "\<not> 0 \<le> d"
    then have neg: "d < 0" by simp
    have low: "- (2 ^ 63) \<le> d"
      unfolding d_def using wrap64_range by blast
    have "nsec (time_Add ?u d) \<noteq> 0 \<or> sec (time_Add ?u d) < sec ?u"
      using b neg low by (intro time_Add_backwards) simp_all
    with eq le show False by (auto simp: time_Equal_def)
  qed
  then have "0 \<le> time_Sub ?t ?u"
    by (simp add: sub maxDuration_def maxInt64_def)
  then show ?thesis
    by (simp add: time_Unix_in_range(1) a b)
qed

lemma time_Add_backwards_bound:
  assumes u: "62135596800 \<le> sec u" "sec u < 2 ^ 63" "nsec u = 0"
    and d: "d < 0" "- (2 ^ 63) \<le> d"
  shows "nsec (time_Add u d) \<noteq> 0
     \<or> (sec (time_Add u d) < sec u \<and> sec u - 9223372036 \<le> sec (time_Add u d))"
proof (cases "(- d) mod 1000000000 = 0")
  case True
  let ?q = "(- d) div 1000000000"
  have "- d = 1000000000 * ?q"
    using True by (metis add.right_neutral mult_div_mod_eq)
  with d have q: "0 < ?q" "?q \<le> 9223372036" by simp_all
  have same: "u\<lparr>nsec := 0\<rparr> = u"
    using u(3) by (cases u) simp
  have eq: "time_Add u d = addSec u (- ?q)"
    using d(1) True u(3) by (simp add: time_Add_def quo_rem_neg Let_def same)
  have "sec (addSec u (- ?q)) = sec u + (- ?q)"
    using u q by (intro addSec_in_range) simp_all
  with q show ?thesis by (simp add: eq)
next
  case False
  from time_Add_backwards [OF u d] have "nsec (time_Add u d) \<noteq> 0"
  proof
    assume "sec (time_Add u d) < sec u"
    let ?r = "(- d) mod 1000000000"
    have "0 \<le> ?r" "?r < 1000000000" by simp_all
    with False have r: "0 < ?r" "?r < 1000000000" by linarith+
    have "time_Add u d
        = addSec (u\<lparr>nsec := - ?r + 1000000000\<rparr>) (- ((- d) div 1000000000) - 1)"
      using d(1) r u(3) by (simp add: time_Add_def quo_rem_neg Let_def)
    then have "nsec (time_Add u d) = - ?r + 1000000000"
      by (simp add: addSec_nsec)
    with r show "nsec (time_Add u d) \<noteq> 0" by linarith
  qed
  then show ?thesis ..
qed

lemma addSec_forwards:
  assumes "0 \<le> q" "sec t < 2 ^ 63" "- (2 ^ 63) \<le> sec t"
  shows "sec t \<le> sec (addSec t q)"
    and "sec t + q < 2 ^ 63 \<Longrightarrow> sec (addSec t q) = sec t + q"
proof -
  show eq: "sec (addSec t q) = sec t + q" if "sec t + q < 2 ^ 63"
    using assms that by (intro addSec_in_range) simp_all
  show "sec t \<le> sec (addSec t q)"
  proof (cases "sec t + q < 2 ^ 63")
    case True
    then show ?thesis using assms(1) by (simp add: eq)
  next
    case False
    show ?thesis
    proof (cases "q > 0")
      case True
      have "sec (addSec t q) = wrap64 (sec t + q) \<or> sec (addSec t q) = maxInt64"
        using True by (auto simp: addSec_def Let_def)
      moreover have "sec t \<le> wrap64 (sec t + q)"
        if "sec (addSec t q) = wrap64 (sec t + q)" "sec (addSec t q) \<noteq> maxInt64"
        using that True by (auto simp: addSec_def Let_def split: if_splits)
      moreover have "sec t \<le> maxInt64"
        using assms(2) by (simp add: maxInt64_def)
      ultimately show ?thesis by metis
    next
      case False
      with assms(1) have "q = 0" by simp
      then show ?thesis using assms by (simp add: addSec_def Let_def wrap64_id)
    qed
  qed
qed

lemma time_Add_forwards:
  assumes u: "62135596800 \<le> sec u" "sec u < 2 ^ 63" "nsec u = 0"
    and d: "0 \<le> d" "d < 2 ^ 63"
  shows "sec u \<le> sec (time_Add u d)"
    and "sec u + d div 1000000000 < 2 ^ 63 \<Longrightarrow> sec (time_Add u d) = sec u + d div 1000000000"
proof -
  let ?q = "d div 1000000000" and ?r = "d mod 1000000000"
  let ?v = "u\<lparr>nsec := ?r\<rparr>"
  have r: "0 \<le> ?r" "?r < 1000000000" by simp_all
  have q: "0 \<le> ?q" using d(1) by simp
  have eq: "time_Add u d = addSec ?v ?q"
    using d(1) r u(3) by (simp add: time_Add_def quo_rem_nonneg Let_def)
  have v: "sec ?v = sec u" by simp
  show "sec u \<le> sec (time_Add u d)"
    unfolding eq using addSec_forwards(1) [of ?q ?v] q u by simp
  show "sec (time_Add u d) = sec u + ?q" if "sec u + ?q < 2 ^ 63"
    unfolding eq using addSec_forwards(2) [of ?q ?v] q u that by simp
qed


lemma time_Sub_saturates_max:
  assumes a: "0 \<le> a" "a < 9223371974719179008"
    and b: "0 \<le> b" "b < 9223371974719179008"
    and gt: "9223372036 < a - b"
  shows "time_Sub (time_Unix a) (time_Unix b) = maxDuration"
proof -
  let ?t = "\<lparr>sec = a + 62135596800, nsec = 0\<rparr>"
  let ?u = "\<lparr>sec = b + 62135596800, nsec = 0\<rparr>"
  define d where "d = wrap64 (wrap64 (sec ?t - sec ?u) * Second + (nsec ?t - nsec ?u))"
  have rng: "- (2 ^ 63) \<le> d" "d < 2 ^ 63"
    unfolding d_def using wrap64_range by blast+
  have notBefore: "\<not> time_Before ?t ?u"
    using gt by (simp add: time_Before_def)
  have notEqual: "\<not> time_Equal (time_Add ?u d) ?t"
  proof (cases "d < 0")
    case True
    have "nsec (time_Add ?u d) \<noteq> 0
       \<or> (sec (time_Add ?u d) < sec ?u \<and> sec ?u - 9223372036 \<le> sec (time_Add ?u d))"
      using b True rng(1) by (intro time_Add_backwards_bound) simp_all
    with gt show ?thesis by (auto simp: time_Equal_def)
  next
    case False
    then have nonneg: "0 \<le> d" by simp
    have "d div 1000000000 \<le> 9223372036"
      using rng(2) by simp
    with gt a have small: "sec ?u + d div 1000000000 < sec ?t" "sec ?u + d div 1000000000 < 2 ^ 63"
      by simp_all
    have "sec (time_Add ?u d) = sec ?u + d div 1000000000"
      using b nonneg rng(2) small(2) by (intro time_Add_forwards(2)) simp_all
    with small(1) show ?thesis by (simp add: time_Equal_def)
  qed
  have "time_Sub ?t ?u = maxDuration"
    using notBefore notEqual by (simp add: time_Sub_def d_def Let_def)
  then show ?thesis
    by (simp add: time_Unix_in_range(1) a b)
qed

lemma time_Sub_saturates_min:
  assumes a: "0 \<le> a" "a < 9223371974719179008"
    and b: "0 \<le> b" "b < 9223371974719179008"
    and lt: "a - b < - 9223372036"
  shows "time_Sub (time_Unix a) (time_Unix b) = minDuration"
proof -
  let ?t = "\<lparr>sec = a + 62135596800, nsec = 0\<rparr>"
  let ?u = "\<lparr>sec = b + 62135596800, nsec = 0\<rparr>"
  define d where "d = wrap64 (wrap64 (sec ?t - sec ?u) * Second + (nsec ?t - nsec ?u))"
  have rng: "- (2 ^ 63) \<le> d" "d < 2 ^ 63"
    unfolding d_def using wrap64_range by blast+
  have before: "time_Before ?t ?u"
    using lt by (simp add: time_Before_def)
  have notEqual: "\<not> time_Equal (time_Add ?u d) ?t"
  proof (cases "d < 0")
    case True
    have "nsec (time_Add ?u d) \<noteq> 0
       \<or> (sec (time_Add ?u d) < sec ?u \<and> sec ?u - 9223372036 \<le> sec (time_Add ?u d))"
      using b True rng(1) by (intro time_Add_backwards_bound) simp_all
    with lt show ?thesis by (auto simp: time_Equal_def)
  next
    case False
    then have nonneg: "0 \<le> d" by simp
    have "sec ?u \<le> sec (time_Add ?u d)"
      using b nonneg rng(2) by (intro time_Add_forwards(1)) simp_all
    with lt show ?thesis by (simp add: time_Equal_def)
  qed
  have "time_Sub ?t ?u = minDuration"
    using before notEqual by (simp add: time_Sub_def d_def Let_def)
  then show ?thesis
    by (simp add: time_Unix_in_range(1) a b)
qed

lemma blockTimes_length: "length (blockTimes p ts) = length ts"
  by (induction ts arbitrary: p) simp_all

lemma blockTimes_first: "ts \<noteq> [] \<Longrightarrow> hd (blockTimes zeroTime ts) = 0"
  by (cases ts) (simp_all add: IsZero_def zeroTime_def)

lemma blockTimes_later:
  "Suc i < length ts \<Longrightarrow>
   blockTimes p ts ! Suc i =
     (if \<not> IsZero (time_Unix (sint (ts ! i)))
      then time_Sub (time_Unix (sint (ts ! Suc i))) (time_Unix (sint (ts ! i)))
      else 0)"
proof (induction ts arbitrary: p i)
  case Nil
  then show ?case by simp
next
  case (Cons t ts)
  show ?case
  proof (cases i)
    case 0
    with Cons.prems obtain t' ts' where "ts = t' # ts'" by (cases ts) auto
    with 0 show ?thesis by simp
  next
    case (Suc j)
    with Cons.prems have "Suc j < length ts" by simp
    then have "blockTimes (time_Unix (sint t)) ts ! Suc j =
       (if \<not> IsZero (time_Unix (sint (ts ! j)))
        then time_Sub (time_Unix (sint (ts ! Suc j))) (time_Unix (sint (ts ! j)))
        else 0)"
      by (rule Cons.IH)
    with Suc show ?thesis by simp
  qed
qed

lemma sint_small:
  fixes w :: uint64
  assumes "uint w < 9223371974719179008"
  shows "sint w = uint w"
proof -
  have "sint w = signed_take_bit 63 (uint w)"
    by (simp add: sint_uint)
  also have "\<dots> = uint w"
  proof (rule signed_take_bit_int_eq_self)
    have "0 \<le> uint w" by simp
    moreover have "- (2 ^ 63) \<le> (0 :: int)" by simp
    ultimately show "- (2 ^ 63) \<le> uint w" by (rule order_trans [rotated])
    show "uint w < 2 ^ 63" using assms by simp
  qed
  finally show ?thesis .
qed

text \<open>
  Claim C7, as the code has it. In a session that starts with the zero
  \<^verbatim>\<open>LastBlockTime\<close>, the first record folded has the interval 0. For every later
  record, when its header time and that of the block folded before it are both below
  \<open>2 ^ 63 - 62135596800\<close> (the seconds \<^verbatim>\<open>time.Unix\<close> stores without wrap-around): the
  interval is the difference of the two header times, in nanoseconds, when they differ
  by at most 9223372036 seconds (what a \<^verbatim>\<open>time.Duration\<close> can hold); it is the largest
  duration when the later time is more than 9223372036 seconds ahead and the smallest
  duration when it is more than 9223372036 seconds behind; and it is not negative
  whenever the later header time is not smaller.
\<close>

theorem block_interval_is_timestamp_delta:
  assumes "LastBlockTime (stats m) = zeroTime"
  shows "\<exists>m' infos. processBlocks m ns = Some m'
     \<and> displayedRecords (printed m') = displayedRecords (printed m) @ infos
     \<and> length infos = length (folded ns)
     \<and> (infos \<noteq> [] \<longrightarrow> BlockTime (hd infos) = 0)
     \<and> (\<forall>i. Suc i < length infos \<longrightarrow>
          (let prev = uint (Header.Time (fst (folded ns ! i)));
               cur = uint (Header.Time (fst (folded ns ! Suc i)))
           in prev < 9223371974719179008 \<and> cur < 9223371974719179008 \<longrightarrow>
              (\<bar>cur - prev\<bar> \<le> 9223372036
                 \<longrightarrow> BlockTime (infos ! Suc i) = (cur - prev) * Second)
              \<and> (9223372036 < cur - prev \<longrightarrow> BlockTime (infos ! Suc i) = maxDuration)
              \<and> (cur - prev < - 9223372036 \<longrightarrow> BlockTime (infos ! Suc i) = minDuration)
              \<and> (prev \<le> cur \<longrightarrow> 0 \<le> BlockTime (infos ! Suc i))))"
proof -
  let ?ts = "map (\<lambda>(h, b). Header.Time h) (folded ns)"
  from session [of m ns] obtain m' infos where
    run: "processBlocks m ns = Some m'"
    and disp: "displayedRecords (printed m') = displayedRecords (printed m) @ infos"
    and bt: "map BlockTime infos = blockTimes (LastBlockTime (stats m)) ?ts"
    by blast
  from bt have len: "length infos = length (folded ns)"
    by (metis blockTimes_length length_map)
  have first: "BlockTime (hd infos) = 0" if "infos \<noteq> []"
  proof -
    from that len have "?ts \<noteq> []" by auto
    then have "hd (blockTimes zeroTime ?ts) = 0" by (rule blockTimes_first)
    then have "hd (map BlockTime infos) = 0" by (simp add: bt assms(1))
    with that show ?thesis by (simp add: hd_map)
  qed
  have later: "(\<bar>cur - prev\<bar> \<le> 9223372036 \<longrightarrow> BlockTime (infos ! Suc i) = (cur - prev) * Second)
              \<and> (9223372036 < cur - prev \<longrightarrow> BlockTime (infos ! Suc i) = maxDuration)
              \<and> (cur - prev < - 9223372036 \<longrightarrow> BlockTime (infos ! Suc i) = minDuration)
              \<and> (prev \<le> cur \<longrightarrow> 0 \<le> BlockTime (infos ! Suc i))"
    if i: "Suc i < length infos"
      and prev: "prev = uint (Header.Time (fst (folded ns ! i)))"
      and cur: "cur = uint (Header.Time (fst (folded ns ! Suc i)))"
      and rng: "prev < 9223371974719179008" "cur < 9223371974719179008"
    for i prev cur
  proof -
    from i len have i': "Suc i < length (folded ns)" "i < length (folded ns)" by simp_all
    have tsi: "?ts ! i = Header.Time (fst (folded ns ! i))"
      "?ts ! Suc i = Header.Time (fst (folded ns ! Suc i))"
      using i' by (simp_all add: case_prod_beta)
    have nonneg: "0 \<le> prev" "0 \<le> cur"
      unfolding prev cur by simp_all
    have s: "sint (?ts ! i) = prev" "sint (?ts ! Suc i) = cur"
      using rng unfolding tsi prev cur by (simp_all add: sint_small)
    have "BlockTime (infos ! Suc i) = map BlockTime infos ! Suc i"
      using i by simp
    also have "\<dots> = blockTimes zeroTime ?ts ! Suc i"
      by (simp add: bt assms(1))
    also have "\<dots> = (if \<not> IsZero (time_Unix (sint (?ts ! i)))
        then time_Sub (time_Unix (sint (?ts ! Suc i))) (time_Unix (sint (?ts ! i)))
        else 0)"
      using i' by (intro blockTimes_later) simp
    also have "\<dots> = time_Sub (time_Unix cur) (time_Unix prev)"
      unfolding s using nonneg(1) rng(1) by (simp add: time_Unix_in_range(2))
    finally have eq: "BlockTime (infos ! Suc i) = time_Sub (time_Unix cur) (time_Unix prev)" .
    show ?thesis
      unfolding eq using nonneg rng
      by (auto intro: time_Sub_exact time_Sub_nonneg time_Sub_saturates_max
          time_Sub_saturates_min)
  qed
  show ?thesis
    using run disp len first later
    by (intro exI [of _ m'] exI [of _ infos]) (simp add: Let_def)
qed

theorem block_interval_is_timestamp_delta_witness:
  "LastBlockTime (stats freshMonitor) = zeroTime
   \<and> (\<exists>m'. processBlocks freshMonitor
             [fetchedAt 1 1700000000 [], failedAt 2 1700000012, fetchedAt 3 1700000024 [],
              fetchedAt 4 20000000000 [], fetchedAt 5 0 []]
           = Some m'
          \<and> map BlockTime (displayedRecords (printed m'))
              = [0, 24000000000, 9223372036854775807, - 9223372036854775808])"
proof -
  let ?ns = "[fetchedAt 1 1700000000 [], failedAt 2 1700000012, fetchedAt 3 1700000024 [],
              fetchedAt 4 20000000000 [], fetchedAt 5 0 []]"
  have f: "folded ?ns =
      [(headerAt 1 1700000000, \<lparr>header = headerAt 1 1700000000, Transactions = []\<rparr>),
       (headerAt 3 1700000024, \<lparr>header = headerAt 3 1700000024, Transactions = []\<rparr>),
       (headerAt 4 20000000000, \<lparr>header = headerAt 4 20000000000, Transactions = []\<rparr>),
       (headerAt 5 0, \<lparr>header = headerAt 5 0, Transactions = []\<rparr>)]"
    by (simp add: fetchedAt_def failedAt_def)
  have a: "LastBlockTime (stats freshMonitor) = zeroTime"
    by (simp add: freshMonitor_def)
  from block_interval_is_timestamp_delta [OF a, of ?ns] obtain m' infos where
    run: "processBlocks freshMonitor ?ns = Some m'"
    and disp: "displayedRecords (printed m') = displayedRecords (printed freshMonitor) @ infos"
    and len: "length infos = length (folded ?ns)"
    and first: "infos \<noteq> [] \<longrightarrow> BlockTime (hd infos) = 0"
    and later: "\<forall>i. Suc i < length infos \<longrightarrow>
          (let prev = uint (Header.Time (fst (folded ?ns ! i)));
               cur = uint (Header.Time (fst (folded ?ns ! Suc i)))
           in prev < 9223371974719179008 \<and> cur < 9223371974719179008 \<longrightarrow>
              (\<bar>cur - prev\<bar> \<le> 9223372036
                 \<longrightarrow> BlockTime (infos ! Suc i) = (cur - prev) * Second)
              \<and> (9223372036 < cur - prev \<longrightarrow> BlockTime (infos ! Suc i) = maxDuration)
              \<and> (cur - prev < - 9223372036 \<longrightarrow> BlockTime (infos ! Suc i) = minDuration)
              \<and> (prev \<le> cur \<longrightarrow> 0 \<le> BlockTime (infos ! Suc i)))"
    by blast
  from len have "length infos = 4" unfolding f by simp
  then obtain w x y z where infos: "infos = [w, x, y, z]"
    by (auto simp: length_Suc_conv eval_nat_numeral)
  from first have w: "BlockTime w = 0"
    by (simp add: infos)
  from later [rule_format, of 0] have x: "BlockTime x = 24000000000"
    unfolding f by (simp add: infos headerAt_def Second_def)
  from later [rule_format, of 1] have y: "BlockTime y = 9223372036854775807"
    unfolding f by (simp add: infos headerAt_def maxDuration_def maxInt64_def)
  from later [rule_format, of 2] have z: "BlockTime z = - 9223372036854775808"
    unfolding f by (simp add: infos headerAt_def minDuration_def minInt64_def)
  have res: "map BlockTime (displayedRecords (printed m'))
      = [0, 24000000000, 9223372036854775807, - 9223372036854775808]"
    by (simp add: disp infos w x y z freshMonitor_def)
  show ?thesis
    using a run res by (intro conjI exI [of _ m']) assumption+
qed

text \<open>
  Claim C7 as stated fails: for a block at time 0 followed by one at time \<open>10 ^ 10\<close>,
  \<^verbatim>\<open>Sub\<close> returns the largest duration, not the difference of the time stamps.
\<close>

theorem block_interval_saturates:
  "(case processBlocks freshMonitor [fetchedAt 1 0 [], fetchedAt 2 10000000000 []] of
      None \<Rightarrow> False
    | Some m' \<Rightarrow> map BlockTime (displayedRecords (printed m')) = [0, 9223372036854775807]
                 \<and> 9223372036854775807 \<noteq> (10000000000 - 0) * Second)"
  by code_simp

end
